theory Spec2Isabelle
  imports Complex_Main
begin

section \<open>Local RANSAC line-segment extraction (Assets/AnalyzeLines.py)\<close>

text \<open>
  The point cloud is an \<open>N \<times> 3\<close> numpy array; it is modelled as a list of rows, each row
  a triple of coordinates. Coordinates are taken as real numbers: rounding, infinities
  and NaN of the 64-bit floats are outside this model.

  Two things the script obtains from numpy's runtime rather than from its own code are
  parameters of the model; a theorem holds for all their values unless it states an
  assumption about them:
  \<^item> \<open>rnd\<close>, the random source: the draw of the iteration that starts with
    \<open>iter_count = k\<close> is \<open>rnd k\<close> reduced modulo the pool size, so every sequence of
    draws \<open>np.random.randint\<close> can deliver is the behaviour of some \<open>rnd\<close>;
  \<^item> \<open>svd\<close>, the row \<open>vv[0]\<close> that \<open>np.linalg.svd\<close> returns for a matrix of rows,
    or \<open>None\<close> when the routine raises \<open>LinAlgError\<close>.
\<close>

subsection \<open>Vectors\<close>

type_synonym vec3 = "real \<times> real \<times> real"

fun vsub :: "vec3 \<Rightarrow> vec3 \<Rightarrow> vec3" where
  "vsub (a, b, c) (x, y, z) = (a - x, b - y, c - z)"

fun vadd :: "vec3 \<Rightarrow> vec3 \<Rightarrow> vec3" where
  "vadd (a, b, c) (x, y, z) = (a + x, b + y, c + z)"

text \<open>\<open>direction * t\<close>: a row scaled by a number.\<close>

fun smul :: "vec3 \<Rightarrow> real \<Rightarrow> vec3" where
  "smul (a, b, c) t = (a * t, b * t, c * t)"

text \<open>\<open>np.dot\<close> of two rows.\<close>

fun dot :: "vec3 \<Rightarrow> vec3 \<Rightarrow> real" where
  "dot (a, b, c) (x, y, z) = a * x + b * y + c * z"

text \<open>\<open>np.cross\<close> of two rows.\<close>

fun cross :: "vec3 \<Rightarrow> vec3 \<Rightarrow> vec3" where
  "cross (a, b, c) (x, y, z) = (b * z - c * y, c * x - a * z, a * y - b * x)"

text \<open>The sum of squares of a row, and \<open>np.linalg.norm\<close> of a row.\<close>

fun sumsq :: "vec3 \<Rightarrow> real" where
  "sumsq (a, b, c) = a * a + b * b + c * c"

definition norm3 :: "vec3 \<Rightarrow> real" where
  "norm3 v = sqrt (sumsq v)"

subsection \<open>Array primitives\<close>

datatype error = ValueError | LinAlgError

text \<open>\<open>np.mean(points, axis=0)\<close>: the column means.\<close>

definition np_mean :: "vec3 list \<Rightarrow> vec3" where
  "np_mean ps =
     (let n = real (length ps)
      in (sum_list (map fst ps) / n,
          sum_list (map (fst \<circ> snd) ps) / n,
          sum_list (map (snd \<circ> snd) ps) / n))"

text \<open>\<open>np.where(ds < bound)[0]\<close>: the positions, ascending, whose entry is strictly below
  the bound.\<close>

definition np_where_lt :: "real list \<Rightarrow> real \<Rightarrow> nat list" where
  "np_where_lt ds bound = filter (\<lambda>i. ds ! i < bound) [0..<length ds]"

text \<open>\<open>a[idxs]\<close>: the rows at the given positions, in the order given. Every use in
  the script passes positions that \<open>np.where\<close> computed on the same array.\<close>

definition take_rows :: "'a list \<Rightarrow> nat list \<Rightarrow> 'a list" where
  "take_rows a idxs = map (\<lambda>i. a ! i) idxs"

text \<open>\<open>np.delete(a, idxs, axis=0)\<close>: the rows whose position is not listed, in their
  order. A single position \<open>idx\<close> is the list \<open>[idx]\<close>.\<close>

definition np_delete :: "'a list \<Rightarrow> nat list \<Rightarrow> 'a list" where
  "np_delete a idxs = map (\<lambda>i. a ! i) (filter (\<lambda>i. i \<notin> set idxs) [0..<length a])"

text \<open>\<open>np.min\<close> and \<open>np.max\<close> raise \<open>ValueError\<close> on an array of size zero.\<close>

definition np_min :: "real list \<Rightarrow> error + real" where
  "np_min ts = (case ts of [] \<Rightarrow> Inl ValueError | t # rest \<Rightarrow> Inr (fold min rest t))"

definition np_max :: "real list \<Rightarrow> error + real" where
  "np_max ts = (case ts of [] \<Rightarrow> Inl ValueError | t # rest \<Rightarrow> Inr (fold max rest t))"

subsection \<open>The segment fitter\<close>

type_synonym svd_routine = "vec3 list \<Rightarrow> vec3 option"

text \<open>\<open>fit_line_segment\<close>: the centroid, and the first row of \<open>vv\<close> for the centred
  rows.\<close>

definition fit_line_segment :: "svd_routine \<Rightarrow> vec3 list \<Rightarrow> error + (vec3 \<times> vec3)" where
  "fit_line_segment svd points =
     (let mean = np_mean points
      in case svd (map (\<lambda>p. vsub p mean) points) of
           None \<Rightarrow> Inl LinAlgError
         | Some direction \<Rightarrow> Inr (mean, direction))"

subsection \<open>The extraction loop\<close>

text \<open>The three variables the loop of \<open>run_local_ransac\<close> updates.\<close>

record state =
  points :: "vec3 list"
  lines :: "(vec3 \<times> vec3) list"
  iter_count :: nat

text \<open>The cap is a local constant of the function.\<close>

definition max_iterations :: nat where
  "max_iterations = 5000"

text \<open>\<open>idx = np.random.randint(len(points))\<close> for a pool that is not empty.\<close>

definition seed_index :: "(nat \<Rightarrow> nat) \<Rightarrow> state \<Rightarrow> nat" where
  "seed_index rnd s = rnd (iter_count s) mod length (points s)"

text \<open>\<open>dists\<close> and \<open>local_indices\<close> (lines 44 and 47).\<close>

definition local_indices :: "vec3 list \<Rightarrow> nat \<Rightarrow> real \<Rightarrow> nat list" where
  "local_indices pts idx neighborhood_radius =
     np_where_lt (map (\<lambda>p. norm3 (vsub p (pts ! idx))) pts) neighborhood_radius"

text \<open>\<open>vecs\<close>, \<open>cross_prods\<close>, \<open>dists_to_line\<close> and \<open>inliers_idx\<close> (lines 60 to 64).\<close>

definition dists_to_line :: "vec3 list \<Rightarrow> vec3 \<Rightarrow> vec3 \<Rightarrow> real list" where
  "dists_to_line local_points mean direction =
     map norm3 (map (\<lambda>v. cross v direction) (map (\<lambda>p. vsub p mean) local_points))"

definition inliers_idx :: "vec3 list \<Rightarrow> vec3 \<Rightarrow> vec3 \<Rightarrow> real \<Rightarrow> nat list" where
  "inliers_idx local_points mean direction threshold =
     np_where_lt (dists_to_line local_points mean direction) threshold"

text \<open>\<open>projections\<close> (line 72).\<close>

definition projections :: "vec3 list \<Rightarrow> vec3 \<Rightarrow> vec3 \<Rightarrow> real list" where
  "projections inlier_points mean direction =
     map (\<lambda>p. dot (vsub p mean) direction) inlier_points"

text \<open>
  One pass through the loop body (lines 36 to 83), for a state that passed the guard.
  \<open>np.random.randint(0)\<close> raises \<open>ValueError\<close>; the guard lets an empty pool through
  when \<open>min_samples\<close> is negative.
\<close>

definition iteration ::
  "(nat \<Rightarrow> nat) \<Rightarrow> svd_routine \<Rightarrow> real \<Rightarrow> int \<Rightarrow> real \<Rightarrow> state \<Rightarrow> error + state" where
  "iteration rnd svd neighborhood_radius min_samples threshold s =
     (let pts = points s; it = iter_count s + 1
      in if length pts = 0 then Inl ValueError
         else
           let idx = seed_index rnd s;
               loc = local_indices pts idx neighborhood_radius
           in if int (length loc) < min_samples
              then Inr (s\<lparr>points := np_delete pts [idx], iter_count := it\<rparr>)
              else
                let local_points = take_rows pts loc
                in case fit_line_segment svd local_points of
                     Inl e \<Rightarrow> Inl e
                   | Inr (mean, direction) \<Rightarrow>
                       let inl = inliers_idx local_points mean direction threshold
                       in if int (length inl) \<ge> min_samples
                          then
                            let inlier_points = take_rows local_points inl;
                                ts = projections inlier_points mean direction
                            in case np_min ts of
                                 Inl e \<Rightarrow> Inl e
                               | Inr lo \<Rightarrow>
                                   (case np_max ts of
                                      Inl e \<Rightarrow> Inl e
                                    | Inr hi \<Rightarrow>
                                        Inr \<lparr>points = np_delete pts (take_rows loc inl),
                                             lines = lines s @
                                               [(vadd mean (smul direction lo),
                                                 vadd mean (smul direction hi))],
                                             iter_count = it\<rparr>)
                          else Inr (s\<lparr>points := np_delete pts [idx], iter_count := it\<rparr>))"

text \<open>The loop guard (line 35).\<close>

definition guard :: "int \<Rightarrow> state \<Rightarrow> bool" where
  "guard min_samples s \<longleftrightarrow>
     int (length (points s)) > min_samples \<and> iter_count s < max_iterations"

lemma iteration_iter_count:
  "iteration rnd svd r ms th s = Inr s' \<Longrightarrow> iter_count s' = Suc (iter_count s)"
  by (auto simp: iteration_def Let_def split: if_splits sum.splits prod.splits)

function ransac_loop ::
  "(nat \<Rightarrow> nat) \<Rightarrow> svd_routine \<Rightarrow> real \<Rightarrow> int \<Rightarrow> real \<Rightarrow> state \<Rightarrow> error + state" where
  "ransac_loop rnd svd neighborhood_radius min_samples threshold s =
     (if guard min_samples s
      then case iteration rnd svd neighborhood_radius min_samples threshold s of
             Inl e \<Rightarrow> Inl e
           | Inr s' \<Rightarrow> ransac_loop rnd svd neighborhood_radius min_samples threshold s'
      else Inr s)"
  by pat_completeness auto
termination
  by (relation "measure (\<lambda>(rnd, svd, r, ms, th, s). max_iterations - iter_count s)")
     (auto simp: guard_def dest: iteration_iter_count)

declare ransac_loop.simps [simp del]

text \<open>\<open>run_local_ransac\<close>: the pool starts as a copy of \<open>data\<close>, and the list of segments
  is what is returned.\<close>

definition init_state :: "vec3 list \<Rightarrow> state" where
  "init_state data = \<lparr>points = data, lines = [], iter_count = 0\<rparr>"

definition run_local_ransac ::
  "(nat \<Rightarrow> nat) \<Rightarrow> svd_routine \<Rightarrow> vec3 list \<Rightarrow> real \<Rightarrow> int \<Rightarrow> real
     \<Rightarrow> error + (vec3 \<times> vec3) list" where
  "run_local_ransac rnd svd data neighborhood_radius min_samples threshold =
     map_sum id lines
       (ransac_loop rnd svd neighborhood_radius min_samples threshold (init_state data))"

subsection \<open>Fixtures for concrete runs\<close>

text \<open>A random source that always draws position 0, and a decomposition routine that
  always answers with the X axis.\<close>

definition rnd_zero :: "nat \<Rightarrow> nat" where
  "rnd_zero k = 0"

definition svd_x_axis :: svd_routine where
  "svd_x_axis m = Some (1, 0, 0)"

definition cloud_bent :: "vec3 list" where
  "cloud_bent = [(0, 0, 0), (1, 0, 0), (2, 0, 0), (1, 1, 0), (100, 0, 0)]"

definition cloud_corner :: "vec3 list" where
  "cloud_corner = [(0, 0, 0), (1, 0, 0), (0, 1, 0)]"

definition cloud_sparse :: "vec3 list" where
  "cloud_sparse = [(0, 0, 0), (10, 0, 0), (20, 0, 0), (30, 0, 0)]"


subsection \<open>Names for the quantities of one iteration\<close>

text \<open>The neighbourhood of the seed, the inliers of a fitted line among the local points,
  and their projections, for the state an iteration starts from.\<close>

abbreviation neighborhood :: "(nat \<Rightarrow> nat) \<Rightarrow> real \<Rightarrow> state \<Rightarrow> nat list" where
  "neighborhood rnd r s \<equiv> local_indices (points s) (seed_index rnd s) r"

abbreviation local_inliers :: "(nat \<Rightarrow> nat) \<Rightarrow> real \<Rightarrow> real \<Rightarrow> state \<Rightarrow> vec3 \<Rightarrow> vec3 \<Rightarrow> nat list" where
  "local_inliers rnd r th s mean direction \<equiv>
     inliers_idx (take_rows (points s) (neighborhood rnd r s)) mean direction th"

abbreviation inlier_projections :: "(nat \<Rightarrow> nat) \<Rightarrow> real \<Rightarrow> real \<Rightarrow> state \<Rightarrow> vec3 \<Rightarrow> vec3 \<Rightarrow> real list" where
  "inlier_projections rnd r th s mean direction \<equiv>
     projections (take_rows (take_rows (points s) (neighborhood rnd r s))
                    (local_inliers rnd r th s mean direction)) mean direction"

abbreviation inlier_points :: "(nat \<Rightarrow> nat) \<Rightarrow> real \<Rightarrow> real \<Rightarrow> state \<Rightarrow> vec3 \<Rightarrow> vec3 \<Rightarrow> vec3 list" where
  "inlier_points rnd r th s mean direction \<equiv>
     take_rows (take_rows (points s) (neighborhood rnd r s))
       (local_inliers rnd r th s mean direction)"

subsection \<open>Counting loop steps\<close>

text \<open>The number of times the loop body is entered from a state, whether the run ends
  by the guard or by an error raised inside the body. It follows the recursion of
  \<open>ransac_loop\<close> and observes it; nothing in the model depends on it.\<close>

function count_iterations ::
  "(nat \<Rightarrow> nat) \<Rightarrow> svd_routine \<Rightarrow> real \<Rightarrow> int \<Rightarrow> real \<Rightarrow> state \<Rightarrow> nat" where
  "count_iterations rnd svd neighborhood_radius min_samples threshold s =
     (if guard min_samples s
      then Suc (case iteration rnd svd neighborhood_radius min_samples threshold s of
                  Inl e \<Rightarrow> 0
                | Inr s' \<Rightarrow> count_iterations rnd svd neighborhood_radius min_samples threshold s')
      else 0)"
  by pat_completeness auto
termination
  by (relation "measure (\<lambda>(rnd, svd, r, ms, th, s). max_iterations - iter_count s)")
     (auto simp: guard_def dest: iteration_iter_count)

declare count_iterations.simps [simp del]

subsection \<open>Clouds with no two points within the radius\<close>

text \<open>\<open>isolated r pts\<close>: no two rows of \<open>pts\<close> at different positions have a distance
  strictly below \<open>r\<close>. \<open>cloud_far\<close> is a cloud of 5003 points at unit spacing on the X axis.\<close>

fun far_from_all :: "real \<Rightarrow> vec3 \<Rightarrow> vec3 list \<Rightarrow> bool" where
  "far_from_all r p [] = True"
| "far_from_all r p (q # qs) = (\<not> norm3 (vsub p q) < r \<and> far_from_all r p qs)"

fun isolated :: "real \<Rightarrow> vec3 list \<Rightarrow> bool" where
  "isolated r [] = True"
| "isolated r (p # ps) = (far_from_all r p ps \<and> isolated r ps)"

definition cloud_far :: "vec3 list" where
  "cloud_far = map (\<lambda>k. (real k, 0, 0)) [0..<5003]"

subsection \<open>Row identities\<close>

text \<open>
  The arrays of the source hold no identity for a row beyond its position. To say which input
  rows a segment was fitted to, the loop is run a second time with two ghost lists beside the
  state: \<open>ids\<close>, the position in the input of every row still in the pool, and \<open>taken\<close>,
  for every emitted segment the input positions of its inliers. \<open>accepted_positions\<close> is
  the index array \<open>local_indices[inliers_idx]\<close> of the success branch, and
  \<open>removed_positions\<close> the argument of the \<open>np.delete\<close> that the iteration performs. The
  ghost lists do not influence the state.
\<close>

definition accepted_positions ::
  "(nat \<Rightarrow> nat) \<Rightarrow> svd_routine \<Rightarrow> real \<Rightarrow> int \<Rightarrow> real \<Rightarrow> state \<Rightarrow> nat list option" where
  "accepted_positions rnd svd neighborhood_radius min_samples threshold s =
     (let loc = neighborhood rnd neighborhood_radius s
      in if int (length loc) < min_samples then None
         else case fit_line_segment svd (take_rows (points s) loc) of
                Inl e \<Rightarrow> None
              | Inr (mean, direction) \<Rightarrow>
                  let inl = inliers_idx (take_rows (points s) loc) mean direction threshold
                  in if min_samples \<le> int (length inl) then Some (take_rows loc inl) else None)"

definition removed_positions ::
  "(nat \<Rightarrow> nat) \<Rightarrow> svd_routine \<Rightarrow> real \<Rightarrow> int \<Rightarrow> real \<Rightarrow> state \<Rightarrow> nat list" where
  "removed_positions rnd svd neighborhood_radius min_samples threshold s =
     (case accepted_positions rnd svd neighborhood_radius min_samples threshold s of
        Some inlier_positions \<Rightarrow> inlier_positions
      | None \<Rightarrow> [seed_index rnd s])"

function ransac_loop_ids ::
  "(nat \<Rightarrow> nat) \<Rightarrow> svd_routine \<Rightarrow> real \<Rightarrow> int \<Rightarrow> real \<Rightarrow> state \<Rightarrow> nat list \<Rightarrow> nat list list
     \<Rightarrow> error + (state \<times> nat list \<times> nat list list)" where
  "ransac_loop_ids rnd svd neighborhood_radius min_samples threshold s ids taken =
     (if guard min_samples s
      then case iteration rnd svd neighborhood_radius min_samples threshold s of
             Inl e \<Rightarrow> Inl e
           | Inr s' \<Rightarrow>
               ransac_loop_ids rnd svd neighborhood_radius min_samples threshold s'
                 (np_delete ids
                    (removed_positions rnd svd neighborhood_radius min_samples threshold s))
                 (taken @
                    (case accepted_positions rnd svd neighborhood_radius min_samples threshold s of
                       None \<Rightarrow> []
                     | Some inlier_positions \<Rightarrow> [take_rows ids inlier_positions]))
      else Inr (s, ids, taken))"
  by pat_completeness auto
termination
  by (relation "measure (\<lambda>(rnd, svd, r, ms, th, s, ids, taken). max_iterations - iter_count s)")
     (auto simp: guard_def dest: iteration_iter_count)

declare ransac_loop_ids.simps [simp del]

definition cloud_two :: "vec3 list" where
  "cloud_two = [(0, 0, 0), (1, 0, 0), (2, 0, 0), (10, 0, 0), (11, 0, 0), (12, 0, 0), (50, 0, 0)]"

subsection \<open>The arrays of a call, in a store\<close>

text \<open>
  To say that the caller's array is not written, arrays live in a store: \<open>arrays\<close> maps an
  address to the rows of the array allocated there, and every address below \<open>next_addr\<close>
  is in use. The variable \<open>points\<close> of the source holds an address. \<open>data.copy()\<close> and
  \<open>np.delete\<close> return a new array: they allocate, and the assignment rebinds \<open>points\<close>; no
  statement of the function assigns to an element or a slice of an array, or passes an
  \<open>out=\<close> argument. The other locals, the list \<open>lines\<close> and the counter, are in the
  \<open>frame\<close>. One step reads the pool at \<open>points_ref\<close>, computes as \<open>iteration\<close> does, and
  allocates the array returned by \<open>np.delete\<close>; a step that raises allocates nothing.
\<close>

record store =
  arrays :: "nat \<Rightarrow> vec3 list"
  next_addr :: nat

record frame =
  points_ref :: nat
  lines_var :: "(vec3 \<times> vec3) list"
  iter_count_var :: nat

definition alloc :: "store \<Rightarrow> vec3 list \<Rightarrow> nat \<times> store" where
  "alloc st a =
     (next_addr st, st\<lparr>arrays := (arrays st)(next_addr st := a), next_addr := Suc (next_addr st)\<rparr>)"

definition read_state :: "store \<Rightarrow> frame \<Rightarrow> state" where
  "read_state st f =
     \<lparr>points = arrays st (points_ref f), lines = lines_var f, iter_count = iter_count_var f\<rparr>"

definition iteration_store ::
  "(nat \<Rightarrow> nat) \<Rightarrow> svd_routine \<Rightarrow> real \<Rightarrow> int \<Rightarrow> real \<Rightarrow> store \<Rightarrow> frame \<Rightarrow> store \<times> (error + frame)" where
  "iteration_store rnd svd neighborhood_radius min_samples threshold st f =
     (case iteration rnd svd neighborhood_radius min_samples threshold (read_state st f) of
        Inl e \<Rightarrow> (st, Inl e)
      | Inr s' \<Rightarrow>
          let (a, st') = alloc st (points s')
          in (st', Inr \<lparr>points_ref = a, lines_var = lines s', iter_count_var = iter_count s'\<rparr>))"

lemma iteration_store_iter_count:
  "iteration_store rnd svd r ms th st f = (st', Inr f') \<Longrightarrow> iter_count_var f' = iter_count_var f + 1"
  by (auto simp: iteration_store_def alloc_def read_state_def split: sum.splits
           dest!: iteration_iter_count)

function ransac_loop_store ::
  "(nat \<Rightarrow> nat) \<Rightarrow> svd_routine \<Rightarrow> real \<Rightarrow> int \<Rightarrow> real \<Rightarrow> store \<Rightarrow> frame \<Rightarrow> store \<times> (error + frame)" where
  "ransac_loop_store rnd svd neighborhood_radius min_samples threshold st f =
     (if guard min_samples (read_state st f)
      then case iteration_store rnd svd neighborhood_radius min_samples threshold st f of
             (st', Inl e) \<Rightarrow> (st', Inl e)
           | (st', Inr f') \<Rightarrow>
               ransac_loop_store rnd svd neighborhood_radius min_samples threshold st' f'
      else (st, Inr f))"
  by pat_completeness auto
termination
  by (relation "measure (\<lambda>(rnd, svd, r, ms, th, st, f). max_iterations - iter_count_var f)")
     (auto simp: guard_def read_state_def dest!: iteration_store_iter_count [OF sym])

declare ransac_loop_store.simps [simp del]

definition run_local_ransac_store ::
  "(nat \<Rightarrow> nat) \<Rightarrow> svd_routine \<Rightarrow> store \<Rightarrow> nat \<Rightarrow> real \<Rightarrow> int \<Rightarrow> real
     \<Rightarrow> store \<times> (error + (vec3 \<times> vec3) list)" where
  "run_local_ransac_store rnd svd st data neighborhood_radius min_samples threshold =
     (let (points, st1) = alloc st (arrays st data);
          (st', res) = ransac_loop_store rnd svd neighborhood_radius min_samples threshold st1
                         \<lparr>points_ref = points, lines_var = [], iter_count_var = 0\<rparr>
      in (st', map_sum id lines_var res))"

definition heap_one :: store where
  "heap_one = \<lparr>arrays = (\<lambda>a. [])(0 := cloud_bent), next_addr = 1\<rparr>"

subsection \<open>What the decomposition routine promises\<close>

text \<open>
  \<open>np.linalg.svd\<close> is not part of the script. Its documentation promises that the rows of
  \<open>vv\<close> are orthonormal right singular vectors, ordered by decreasing singular value; the
  first row is then a unit vector \<open>d\<close> at which the length of \<open>A d\<close> is greatest among unit
  vectors, \<open>A\<close> being the matrix of rows passed in, and the squared length of \<open>A v\<close> is the
  sum over the rows \<open>q\<close> of \<open>(dot q v)\<^sup>2\<close>. \<open>first_right_singular rows d\<close> says this of \<open>d\<close>;
  it holds of \<open>-d\<close> whenever it holds of \<open>d\<close>, and fixes no sign. \<open>svd_contract svd rows\<close>
  says that the routine keeps the promise on the argument \<open>rows\<close> when it returns. The
  cloud \<open>cloud_kite\<close> is the neighbourhood of the first seed in \<open>cloud_bent\<close>.
\<close>

definition first_right_singular :: "vec3 list \<Rightarrow> vec3 \<Rightarrow> bool" where
  "first_right_singular rows d \<longleftrightarrow>
     norm3 d = 1
     \<and> (\<forall>v. norm3 v = 1 \<longrightarrow> (\<Sum>q\<leftarrow>rows. (dot q v)\<^sup>2) \<le> (\<Sum>q\<leftarrow>rows. (dot q d)\<^sup>2))"

definition svd_contract :: "svd_routine \<Rightarrow> vec3 list \<Rightarrow> bool" where
  "svd_contract svd rows \<longleftrightarrow> (\<forall>d. svd rows = Some d \<longrightarrow> first_right_singular rows d)"

definition cloud_kite :: "vec3 list" where
  "cloud_kite = [(0, 0, 0), (1, 0, 0), (2, 0, 0), (1, 1, 0)]"

section \<open>Facts about the primitives and the loop body\<close>

lemma zip_upt_nth: "zip a [0..<length a] = map (\<lambda>i. (a ! i, i)) [0..<length a]"
  by (rule nth_equalityI) simp_all

lemma np_delete_nths: "np_delete a idxs = nths a (- set idxs)"
  unfolding np_delete_def nths_def zip_upt_nth by (simp add: filter_map comp_def)

lemma filter_neq_upt:
  assumes "idx < n"
  shows "filter (\<lambda>i. i \<noteq> idx) [0..<n] = [0..<idx] @ [Suc idx..<n]"
proof -
  have "[0..<n] = [0..<idx] @ idx # [Suc idx..<n]"
    using assms by (metis less_imp_le_nat upt_add_eq_append upt_conv_Cons le_add_diff_inverse zero_le add_0)
  then show ?thesis by (simp add: filter_id_conv filter_empty_conv)
qed

lemma np_delete_single:
  assumes "idx < length a"
  shows "np_delete a [idx] = take idx a @ drop (Suc idx) a"
proof -
  have "map (\<lambda>i. a ! i) [0..<idx] = take idx a"
    using assms by (intro nth_equalityI) simp_all
  moreover have "map (\<lambda>i. a ! i) [Suc idx..<length a] = drop (Suc idx) a"
    by (intro nth_equalityI) simp_all
  ultimately show ?thesis
    using assms by (simp add: np_delete_def filter_neq_upt)
qed

lemma perp: 
  assumes "sumsq d = 1" 
  shows "sumsq (vsub v (smul d (dot v d))) = sumsq v - (dot v d)\<^sup>2"
proof -
  obtain a b c where v: "v = (a, b, c)" by (cases v)
  obtain x y z where d: "d = (x, y, z)" by (cases d)
  have one: "x * x + y * y + z * z = 1" using assms by (simp add: d)
  let ?t = "a * x + b * y + c * z"
  have "sumsq (vsub v (smul d (dot v d))) = (a*a + b*b + c*c) - 2 * ?t * ?t + ?t * ?t * (x * x + y * y + z * z)"
    by (simp add: v d algebra_simps)
  also have "\<dots> = (a*a + b*b + c*c) - ?t * ?t" by (simp add: one)
  finally show ?thesis by (simp add: v d power2_eq_square)
qed


lemma set_np_where_lt: "set (np_where_lt ds b) = {i. i < length ds \<and> ds ! i < b}"
  by (auto simp: np_where_lt_def)

lemma distinct_np_where_lt: "distinct (np_where_lt ds b)"
  by (simp add: np_where_lt_def)

lemma length_np_delete:
  assumes "distinct idxs" "set idxs \<subseteq> {..<length a}"
  shows "length (np_delete a idxs) = length a - length idxs"
proof -
  have "{i. i < length a \<and> i \<in> - set idxs} = {..<length a} - set idxs" by auto
  then have "length (np_delete a idxs) = card ({..<length a} - set idxs)"
    by (simp add: np_delete_nths length_nths)
  also have "\<dots> = length a - length idxs"
    using assms by (simp add: card_Diff_subset distinct_card)
  finally show ?thesis .
qed

lemma distinct_take_rows:
  assumes "distinct a" "distinct idxs" "set idxs \<subseteq> {..<length a}"
  shows "distinct (take_rows a idxs)"
  using assms
  by (auto simp: take_rows_def distinct_map inj_on_def nth_eq_iff_index_eq subset_iff)

lemma lagrange: "sumsq (cross v d) = sumsq v * sumsq d - (dot v d)\<^sup>2"
  by (cases v; cases d) (simp add: power2_eq_square algebra_simps)

lemma sumsq_nonneg: "0 \<le> sumsq v"
  by (cases v) simp

lemma norm3_nonneg: "0 \<le> norm3 v"
  by (simp add: norm3_def sumsq_nonneg)

lemma norm3_less_iff: "norm3 v < b \<longleftrightarrow> 0 < b \<and> sumsq v < b * b"
proof (cases "0 < b")
  case True
  then have "sqrt (sumsq v) < b \<longleftrightarrow> sqrt (sumsq v) < sqrt (b * b)" by simp
  then show ?thesis using True unfolding norm3_def real_sqrt_less_iff by simp
next
  case False
  then show ?thesis using norm3_nonneg [of v] by auto
qed

lemma np_min_Inr: "np_min ts = Inr lo \<longleftrightarrow> ts \<noteq> [] \<and> lo = Min (set ts)"
  by (cases ts) (auto simp: np_min_def Min.set_eq_fold [symmetric])

lemma np_max_Inr: "np_max ts = Inr hi \<longleftrightarrow> ts \<noteq> [] \<and> hi = Max (set ts)"
  by (cases ts) (auto simp: np_max_def Max.set_eq_fold [symmetric])

lemma iteration_cases:
  assumes "iteration rnd svd r ms th s = Inr s'"
  obtains
    (noise) "points s \<noteq> []" "int (length (neighborhood rnd r s)) < ms"
      "s' = s\<lparr>points := np_delete (points s) [seed_index rnd s], iter_count := Suc (iter_count s)\<rparr>"
  | (accept) mean direction lo hi where
      "points s \<noteq> []" "ms \<le> int (length (neighborhood rnd r s))"
      "fit_line_segment svd (take_rows (points s) (neighborhood rnd r s)) = Inr (mean, direction)"
      "ms \<le> int (length (local_inliers rnd r th s mean direction))"
      "np_min (inlier_projections rnd r th s mean direction) = Inr lo"
      "np_max (inlier_projections rnd r th s mean direction) = Inr hi"
      "s' = \<lparr>points = np_delete (points s)
                 (take_rows (neighborhood rnd r s) (local_inliers rnd r th s mean direction)),
             lines = lines s @ [(vadd mean (smul direction lo), vadd mean (smul direction hi))],
             iter_count = Suc (iter_count s)\<rparr>"
  | (nofit) mean direction where
      "points s \<noteq> []" "ms \<le> int (length (neighborhood rnd r s))"
      "fit_line_segment svd (take_rows (points s) (neighborhood rnd r s)) = Inr (mean, direction)"
      "int (length (local_inliers rnd r th s mean direction)) < ms"
      "s' = s\<lparr>points := np_delete (points s) [seed_index rnd s], iter_count := Suc (iter_count s)\<rparr>"
  using assms unfolding iteration_def Let_def
  by (auto split: if_splits sum.splits prod.splits)

lemma seed_index_less: "points s \<noteq> [] \<Longrightarrow> seed_index rnd s < length (points s)"
  by (simp add: seed_index_def)

lemma set_local_indices:
  "set (local_indices pts idx r) = {k. k < length pts \<and> norm3 (vsub (pts ! k) (pts ! idx)) < r}"
  by (auto simp: local_indices_def set_np_where_lt)

lemma set_inliers_idx:
  "set (inliers_idx lp mean dir th) = {j. j < length lp \<and> norm3 (cross (vsub (lp ! j) mean) dir) < th}"
  by (auto simp: inliers_idx_def dists_to_line_def set_np_where_lt)

lemma vsub_self: "vsub p p = (0, 0, 0)"
  by (cases p) simp

lemma norm3_zero: "norm3 (0, 0, 0) = 0"
  by (simp add: norm3_def)

lemma norm3_cross_unit:
  assumes "norm3 d = 1"
  shows "norm3 (cross v d) = norm3 (vsub v (smul d (dot v d)))"
proof -
  have "sumsq d = 1" using assms by (simp add: norm3_def)
  then show ?thesis by (simp add: norm3_def lagrange perp)
qed

lemma norm3_axis:
  "norm3 (a, 0, 0) = \<bar>a\<bar>" "norm3 (0, a, 0) = \<bar>a\<bar>" "norm3 (0, 0, a) = \<bar>a\<bar>"
  by (simp_all add: norm3_def)

lemma global_inliers_facts:
  fixes pts :: "vec3 list" and idx :: nat and r th :: real and mean d :: vec3
  defines "loc \<equiv> local_indices pts idx r"
  defines "inl \<equiv> inliers_idx (take_rows pts loc) mean d th"
  shows "distinct (take_rows loc inl)"
    and "set (take_rows loc inl) \<subseteq> set loc"
    and "set (take_rows loc inl) \<subseteq> {..<length pts}"
    and "length (take_rows loc inl) = length inl"
proof -
  have dl: "distinct loc" by (simp add: loc_def local_indices_def distinct_np_where_lt)
  have di: "distinct inl" by (simp add: inl_def inliers_idx_def distinct_np_where_lt)
  have ri: "set inl \<subseteq> {..<length loc}"
    by (auto simp: inl_def set_inliers_idx take_rows_def)
  have rl: "set loc \<subseteq> {..<length pts}"
    by (auto simp: loc_def set_local_indices)
  show "distinct (take_rows loc inl)" using dl di ri by (rule distinct_take_rows)
  show sub: "set (take_rows loc inl) \<subseteq> set loc"
    using ri by (auto simp: take_rows_def)
  show "set (take_rows loc inl) \<subseteq> {..<length pts}" using sub rl by blast
  show "length (take_rows loc inl) = length inl" by (simp add: take_rows_def)
qed

lemmas eval_simps = norm3_axis
  iteration_def Let_def seed_index_def rnd_zero_def svd_x_axis_def local_indices_def
  np_where_lt_def norm3_less_iff take_rows_def np_delete_def fit_line_segment_def np_mean_def
  inliers_idx_def dists_to_line_def projections_def np_min_def np_max_def init_state_def

lemma set_projections:
  "set (projections ps mean direction) = (\<lambda>p. dot (vsub p mean) direction) ` set ps"
  by (simp add: projections_def)

lemma dot_endpoint:
  assumes "norm3 d = 1"
  shows "dot (vsub (vadd m (smul d t)) m) d = t"
proof -
  obtain x y z where d: "d = (x, y, z)" by (cases d)
  obtain a b c where m: "m = (a, b, c)" by (cases m)
  have "sumsq d = 1" using assms by (simp add: norm3_def)
  then have one: "x * x + y * y + z * z = 1" by (simp add: d)
  have "dot (vsub (vadd m (smul d t)) m) d = t * (x * x + y * y + z * z)"
    by (simp add: d m algebra_simps)
  then show ?thesis by (simp add: one)
qed

subsection \<open>Facts about the loop\<close>

lemma iteration_shrinks_all:
  assumes "iteration rnd svd r ms th s = Inr s'"
  shows "length (points s') < length (points s)
       \<and> (lines s' \<noteq> lines s \<longrightarrow> ms \<le> int (length (points s)) - int (length (points s')))
       \<and> (lines s' = lines s \<or> (\<exists>seg. lines s' = lines s @ [seg]))"
  using assms
proof (cases rule: iteration_cases)
  case noise
  then have "points s' = take (seed_index rnd s) (points s) @ drop (Suc (seed_index rnd s)) (points s)"
    by (simp add: np_delete_single seed_index_less)
  then have "length (points s') < length (points s)"
    using seed_index_less [OF noise(1), of rnd] by simp
  moreover have "lines s' = lines s" using noise by simp
  ultimately show ?thesis by simp
next
  case (nofit mean direction)
  then have "points s' = take (seed_index rnd s) (points s) @ drop (Suc (seed_index rnd s)) (points s)"
    by (simp add: np_delete_single seed_index_less)
  then have "length (points s') < length (points s)"
    using seed_index_less [OF nofit(1), of rnd] by simp
  moreover have "lines s' = lines s" using nofit by simp
  ultimately show ?thesis by simp
next
  case (accept mean direction lo hi)
  let ?inl = "local_inliers rnd r th s mean direction"
  let ?G = "take_rows (neighborhood rnd r s) ?inl"
  have G: "distinct ?G" "set ?G \<subseteq> {..<length (points s)}" "length ?G = length ?inl"
    by (rule global_inliers_facts)+
  have len: "length (points s') = length (points s) - length ?inl"
    using accept(7) G by (simp add: length_np_delete)
  have ne: "?inl \<noteq> []"
    using accept(5) by (auto simp: np_min_Inr projections_def take_rows_def)
  have "card (set ?G) \<le> card {..<length (points s)}"
    using G(2) by (intro card_mono) simp_all
  then have le: "length ?inl \<le> length (points s)"
    using G(1,3) by (simp add: distinct_card)
  have 1: "length (points s') < length (points s)"
    using len ne le by (cases ?inl) auto
  have 2: "ms \<le> int (length (points s)) - int (length (points s'))"
    using len le accept(4) by simp
  have "lines s' = lines s @ [(vadd mean (smul direction lo), vadd mean (smul direction hi))]"
    using accept(7) by simp
  then have 3: "\<exists>seg. lines s' = lines s @ [seg]" by blast
  show ?thesis using 1 2 3 by blast
qed


lemma count_iterations_cap:
  "count_iterations rnd svd r ms th s \<le> max_iterations - iter_count s"
proof (induction rnd svd r ms th s rule: count_iterations.induct)
  case (1 rnd svd r ms th s)
  show ?case
  proof (cases "guard ms s")
    case False
    then show ?thesis by (simp add: count_iterations.simps [of rnd svd r ms th s])
  next
    case g: True
    show ?thesis
    proof (cases "iteration rnd svd r ms th s")
      case (Inl e)
      then show ?thesis
        using g by (auto simp: count_iterations.simps [of rnd svd r ms th s] guard_def)
    next
      case (Inr s')
      then show ?thesis
        using g "1.IH" [OF g Inr] iteration_iter_count [OF Inr]
        by (auto simp: count_iterations.simps [of rnd svd r ms th s] guard_def)
    qed
  qed
qed


lemma ransac_loop_facts:
  assumes "ransac_loop rnd svd r ms th s = Inr s'"
  shows "\<not> guard ms s'
       \<and> iter_count s' = iter_count s + count_iterations rnd svd r ms th s
       \<and> length (points s') \<le> length (points s)
       \<and> length (lines s) \<le> length (lines s')
       \<and> (0 < ms \<longrightarrow>
            int (length (lines s') - length (lines s)) * ms
            \<le> int (length (points s)) - int (length (points s')))"
  using assms
proof (induction rnd svd r ms th s rule: ransac_loop.induct)
  case (1 rnd svd r ms th s)
  note leq = ransac_loop.simps [of rnd svd r ms th s]
  note ceq = count_iterations.simps [of rnd svd r ms th s]
  show ?case
  proof (cases "guard ms s")
    case False
    then have "count_iterations rnd svd r ms th s = 0" by (simp add: ceq)
    moreover have "s' = s" using False "1.prems" by (simp add: leq)
    ultimately show ?thesis using False by simp
  next
    case g: True
    then obtain s1 where it: "iteration rnd svd r ms th s = Inr s1"
      and rest: "ransac_loop rnd svd r ms th s1 = Inr s'"
      using "1.prems" by (auto simp: leq split: sum.splits)
    note IH = "1.IH" [OF g it rest]
    note sh = iteration_shrinks_all [OF it]
    have ic: "iter_count s1 = Suc (iter_count s)" by (rule iteration_iter_count [OF it])
    have a: "\<not> guard ms s'" using IH by blast
    have b: "iter_count s' = iter_count s + count_iterations rnd svd r ms th s"
      using IH ic g it by (simp add: ceq)
    have c: "length (points s') \<le> length (points s)" using IH sh by linarith
    have l1: "length (lines s) \<le> length (lines s1)" using sh by auto
    have d: "length (lines s) \<le> length (lines s')" using IH l1 by linarith
    have e: "int (length (lines s') - length (lines s)) * ms
             \<le> int (length (points s)) - int (length (points s'))" if pos: "0 < ms"
    proof -
      have r: "int (length (lines s') - length (lines s1)) * ms
               \<le> int (length (points s1)) - int (length (points s'))"
        using IH pos by blast
      have f: "int (length (lines s1) - length (lines s)) * ms
               \<le> int (length (points s)) - int (length (points s1))"
      proof (cases "lines s1 = lines s")
        case True
        then show ?thesis using sh by simp
      next
        case False
        then have "length (lines s1) - length (lines s) = 1" using sh by auto
        then show ?thesis using sh False by simp
      qed
      have "length (lines s') - length (lines s)
            = (length (lines s') - length (lines s1)) + (length (lines s1) - length (lines s))"
        using IH l1 by linarith
      then have "int (length (lines s') - length (lines s)) * ms
            = int (length (lines s') - length (lines s1)) * ms
              + int (length (lines s1) - length (lines s)) * ms"
        by (simp add: algebra_simps)
      then show ?thesis using r f by linarith
    qed
    show ?thesis using a b c d e by blast
  qed
qed

lemma run_local_ransac_Inr:
  "run_local_ransac rnd svd data r ms th = Inr ls \<longleftrightarrow>
   (\<exists>s'. ransac_loop rnd svd r ms th (init_state data) = Inr s' \<and> ls = lines s')"
  by (cases "ransac_loop rnd svd r ms th (init_state data)")
     (auto simp: run_local_ransac_def)

lemma iteration_total:
  assumes "points s \<noteq> []" "1 \<le> ms" "\<forall>m. svd m \<noteq> None"
  shows "\<exists>s'. iteration rnd svd r ms th s = Inr s'"
proof -
  define lp where "lp = take_rows (points s) (neighborhood rnd r s)"
  obtain direction where "svd (map (\<lambda>p. vsub p (np_mean lp)) lp) = Some direction"
    using assms(3) by (meson not_None_eq)
  then have "fit_line_segment svd lp = Inr (np_mean lp, direction)"
    by (simp add: fit_line_segment_def)
  then obtain mean where
    fit: "fit_line_segment svd (take_rows (points s) (neighborhood rnd r s)) = Inr (mean, direction)"
    unfolding lp_def by blast
  let ?inl = "local_inliers rnd r th s mean direction"
  let ?ts = "inlier_projections rnd r th s mean direction"
  have ok: "np_min ?ts = Inr (Min (set ?ts)) \<and> np_max ?ts = Inr (Max (set ?ts))"
    if "ms \<le> int (length ?inl)"
  proof -
    from that assms(2) have "?inl \<noteq> []" by auto
    then have "?ts \<noteq> []" by (simp add: projections_def take_rows_def)
    then show ?thesis by (simp add: np_min_Inr np_max_Inr)
  qed
  show ?thesis
    using assms(1) fit ok unfolding iteration_def Let_def
    by (auto split: sum.splits prod.splits)
qed

lemma ransac_loop_total:
  assumes "1 \<le> ms" "\<forall>m. svd m \<noteq> None"
  shows "\<exists>s'. ransac_loop rnd svd r ms th s = Inr s'"
  using assms
proof (induction rnd svd r ms th s rule: ransac_loop.induct)
  case (1 rnd svd r ms th s)
  note leq = ransac_loop.simps [of rnd svd r ms th s]
  show ?case
  proof (cases "guard ms s")
    case False
    then show ?thesis by (simp add: leq)
  next
    case g: True
    then have "points s \<noteq> []" using "1.prems"(1) by (auto simp: guard_def)
    from iteration_total [OF this "1.prems"] obtain s1 where
      it: "iteration rnd svd r ms th s = Inr s1" by blast
    from "1.IH" [OF g it "1.prems"] show ?thesis using g it by (simp add: leq)
  qed
qed




subsection \<open>Facts about isolated clouds\<close>

lemma norm3_vsub_sym: "norm3 (vsub p q) = norm3 (vsub q p)"
  by (cases p; cases q) (simp add: norm3_def algebra_simps)

lemma far_from_all_iff: "far_from_all r p qs \<longleftrightarrow> (\<forall>q \<in> set qs. \<not> norm3 (vsub p q) < r)"
  by (induction qs) auto

lemma isolated_iff:
  "isolated r pts \<longleftrightarrow> (\<forall>j < length pts. \<forall>i < j. \<not> norm3 (vsub (pts ! i) (pts ! j)) < r)"
proof (induction pts)
  case Nil
  then show ?case by simp
next
  case (Cons p ps)
  have f: "far_from_all r p ps \<longleftrightarrow> (\<forall>j < length ps. \<not> norm3 (vsub p (ps ! j)) < r)"
    by (simp add: far_from_all_iff all_set_conv_all_nth)
  show ?case
  proof
    assume a: "isolated r (p # ps)"
    show "\<forall>j < length (p # ps). \<forall>i < j. \<not> norm3 (vsub ((p # ps) ! i) ((p # ps) ! j)) < r"
    proof (intro allI impI)
      fix j i assume j: "j < length (p # ps)" and i: "i < j"
      then obtain j' where j': "j = Suc j'" "j' < length ps" by (cases j) auto
      show "\<not> norm3 (vsub ((p # ps) ! i) ((p # ps) ! j)) < r"
      proof (cases i)
        case 0
        then show ?thesis using a f j' by simp
      next
        case (Suc i')
        then show ?thesis using a Cons.IH j' i by simp
      qed
    qed
  next
    assume b: "\<forall>j < length (p # ps). \<forall>i < j. \<not> norm3 (vsub ((p # ps) ! i) ((p # ps) ! j)) < r"
    have "far_from_all r p ps"
      unfolding f
    proof (intro allI impI)
      fix j assume "j < length ps"
      then show "\<not> norm3 (vsub p (ps ! j)) < r"
        using b [rule_format, of "Suc j" 0] by simp
    qed
    moreover have "isolated r ps"
      unfolding Cons.IH
    proof (intro allI impI)
      fix j i assume "j < length ps" "i < j"
      then show "\<not> norm3 (vsub (ps ! i) (ps ! j)) < r"
        using b [rule_format, of "Suc j" "Suc i"] by simp
    qed
    ultimately show "isolated r (p # ps)" by simp
  qed
qed

lemma isolated_nth:
  assumes "isolated r pts" "i < length pts" "j < length pts" "i \<noteq> j"
  shows "\<not> norm3 (vsub (pts ! i) (pts ! j)) < r"
proof (cases "i < j")
  case True
  then show ?thesis using assms by (simp add: isolated_iff)
next
  case False
  then have "j < i" using assms(4) by simp
  then have "\<not> norm3 (vsub (pts ! j) (pts ! i)) < r" using assms by (simp add: isolated_iff)
  then show ?thesis by (simp add: norm3_vsub_sym)
qed

lemma far_from_all_subset:
  "far_from_all r p qs \<Longrightarrow> set qs' \<subseteq> set qs \<Longrightarrow> far_from_all r p qs'"
  by (auto simp: far_from_all_iff)

lemma isolated_delete: "isolated r pts \<Longrightarrow> isolated r (take k pts @ drop (Suc k) pts)"
proof (induction pts arbitrary: k)
  case Nil
  then show ?case by simp
next
  case (Cons p ps)
  show ?case
  proof (cases k)
    case 0
    then show ?thesis using Cons.prems by simp
  next
    case (Suc k')
    have "far_from_all r p (take k' ps @ drop (Suc k') ps)"
      using Cons.prems by (auto simp: far_from_all_iff dest: in_set_takeD in_set_dropD)
    then show ?thesis using Suc Cons by simp
  qed
qed

lemma isolated_local:
  assumes "isolated r pts" "idx < length pts"
  shows "set (local_indices pts idx r) \<subseteq> {idx}" and "length (local_indices pts idx r) \<le> 1"
proof -
  show sub: "set (local_indices pts idx r) \<subseteq> {idx}"
    using isolated_nth [OF assms(1) _ assms(2)] by (auto simp: set_local_indices)
  have "distinct (local_indices pts idx r)"
    by (simp add: local_indices_def distinct_np_where_lt)
  then have "length (local_indices pts idx r) = card (set (local_indices pts idx r))"
    by (simp add: distinct_card)
  also have "\<dots> \<le> card {idx}" using sub by (intro card_mono) simp_all
  finally show "length (local_indices pts idx r) \<le> 1" by simp
qed

lemma iteration_isolated:
  assumes "isolated r (points s)" "2 \<le> ms" "points s \<noteq> []"
  shows "iteration rnd svd r ms th s
         = Inr (s\<lparr>points := take (seed_index rnd s) (points s) @ drop (Suc (seed_index rnd s)) (points s),
                 iter_count := Suc (iter_count s)\<rparr>)"
proof -
  have "length (neighborhood rnd r s) \<le> 1"
    using isolated_local(2) [OF assms(1) seed_index_less [OF assms(3)]] .
  then have "int (length (neighborhood rnd r s)) < ms" using assms(2) by linarith
  then show ?thesis
    using assms(3) by (simp add: iteration_def Let_def np_delete_single seed_index_less)
qed

lemma ransac_loop_isolated:
  assumes "isolated r (points s)" "2 \<le> ms"
  shows "\<exists>s'. ransac_loop rnd svd r ms th s = Inr s'
            \<and> lines s' = lines s
            \<and> isolated r (points s')
            \<and> length (points s')
                = length (points s)
                  - min (nat (int (length (points s)) - ms)) (max_iterations - iter_count s)
            \<and> iter_count s'
                = iter_count s
                  + min (nat (int (length (points s)) - ms)) (max_iterations - iter_count s)"
  using assms
proof (induction rnd svd r ms th s rule: ransac_loop.induct)
  case (1 rnd svd r ms th s)
  note leq = ransac_loop.simps [of rnd svd r ms th s]
  show ?case
  proof (cases "guard ms s")
    case False
    then have "min (nat (int (length (points s)) - ms)) (max_iterations - iter_count s) = 0"
      by (auto simp: guard_def)
    then show ?thesis using False "1.prems" by (simp add: leq)
  next
    case g: True
    define s1 where "s1 = s\<lparr>points := take (seed_index rnd s) (points s)
                                     @ drop (Suc (seed_index rnd s)) (points s),
                          iter_count := Suc (iter_count s)\<rparr>"
    have ne: "points s \<noteq> []" using g "1.prems"(2) by (auto simp: guard_def)
    have it: "iteration rnd svd r ms th s = Inr s1"
      unfolding s1_def by (rule iteration_isolated [OF "1.prems" ne])
    have iso1: "isolated r (points s1)"
      using "1.prems"(1) by (simp add: s1_def isolated_delete)
    have l1: "length (points s1) = length (points s) - 1"
      using seed_index_less [OF ne, of rnd] by (simp add: s1_def)
    have i1: "iter_count s1 = Suc (iter_count s)" by (simp add: s1_def)
    have ln1: "lines s1 = lines s" by (simp add: s1_def)
    from "1.IH" [OF g it iso1 "1.prems"(2)] obtain s' where
      r: "ransac_loop rnd svd r ms th s1 = Inr s'" and
      a: "lines s' = lines s1" and b: "isolated r (points s')" and
      c: "length (points s') = length (points s1)
            - min (nat (int (length (points s1)) - ms)) (max_iterations - iter_count s1)" and
      d: "iter_count s' = iter_count s1
            + min (nat (int (length (points s1)) - ms)) (max_iterations - iter_count s1)"
      by blast
    have k: "min (nat (int (length (points s)) - ms)) (max_iterations - iter_count s)
             = Suc (min (nat (int (length (points s1)) - ms)) (max_iterations - iter_count s1))"
    proof -
      have "int (length (points s1)) = int (length (points s)) - 1"
        using l1 ne by (cases "points s") simp_all
      moreover have "ms < int (length (points s))" "iter_count s < max_iterations"
        using g by (simp_all add: guard_def)
      ultimately show ?thesis using i1 by (simp add: min_def) linarith
    qed
    have k': "min (nat (int (length (points s1)) - ms)) (max_iterations - iter_count s1)
              \<le> length (points s1)"
      using "1.prems"(2) by (auto simp: min_def)
    have "ransac_loop rnd svd r ms th s = Inr s'" using g it r by (simp add: leq)
    moreover have "lines s' = lines s" using a ln1 by simp
    moreover have "length (points s')
        = length (points s) - min (nat (int (length (points s)) - ms)) (max_iterations - iter_count s)"
      using c k l1 ne by (cases "points s") (simp_all)
    moreover have "iter_count s'
        = iter_count s + min (nat (int (length (points s)) - ms)) (max_iterations - iter_count s)"
      using d k i1 by simp
    ultimately show ?thesis using b by blast
  qed
qed


lemma isolated_cloud_far: "isolated (1/2) cloud_far"
  unfolding isolated_iff
proof (intro allI impI)
  fix j i assume j: "j < length cloud_far" and i: "i < j"
  then have "cloud_far ! i = (real i, 0, 0)" "cloud_far ! j = (real j, 0, 0)"
    by (simp_all add: cloud_far_def)
  moreover have "1 \<le> \<bar>real i - real j\<bar>" using i by simp
  ultimately show "\<not> norm3 (vsub (cloud_far ! i) (cloud_far ! j)) < 1/2"
    by (simp add: norm3_axis)
qed

lemma isolated_cloud_sparse: "isolated 1 cloud_sparse"
  by (simp add: cloud_sparse_def norm3_axis)

subsection \<open>Row identities along the loop\<close>

lemma ransac_loop_ids_erasure:
  "map_sum id fst (ransac_loop_ids rnd svd r ms th s ids taken) = ransac_loop rnd svd r ms th s"
proof (induction rnd svd r ms th s ids taken rule: ransac_loop_ids.induct)
  case (1 rnd svd r ms th s ids taken)
  show ?case
  proof (cases "guard ms s")
    case False
    then show ?thesis
      by (simp add: ransac_loop_ids.simps [of rnd svd r ms th s ids taken]
            ransac_loop.simps [of rnd svd r ms th s])
  next
    case g: True
    show ?thesis
    proof (cases "iteration rnd svd r ms th s")
      case (Inl e)
      then show ?thesis
        using g by (simp add: ransac_loop_ids.simps [of rnd svd r ms th s ids taken]
              ransac_loop.simps [of rnd svd r ms th s])
    next
      case (Inr s')
      then show ?thesis
        using g "1.IH" [OF g Inr]
        by (simp add: ransac_loop_ids.simps [of rnd svd r ms th s ids taken]
              ransac_loop.simps [of rnd svd r ms th s])
    qed
  qed
qed

lemma iteration_positions:
  assumes "iteration rnd svd r ms th s = Inr s'"
  shows "points s' = np_delete (points s) (removed_positions rnd svd r ms th s)
       \<and> distinct (removed_positions rnd svd r ms th s)
       \<and> set (removed_positions rnd svd r ms th s) \<subseteq> {..<length (points s)}
       \<and> length (lines s')
           = length (lines s)
             + (case accepted_positions rnd svd r ms th s of None \<Rightarrow> 0 | Some G \<Rightarrow> 1)"
  using assms
proof (cases rule: iteration_cases)
  case noise
  then show ?thesis
    using seed_index_less [OF noise(1), of rnd]
    by (simp add: accepted_positions_def removed_positions_def Let_def)
next
  case (accept mean direction lo hi)
  then show ?thesis
    using global_inliers_facts(1,3) [of "points s" "seed_index rnd s" r mean direction th]
    by (simp add: accepted_positions_def removed_positions_def Let_def)
next
  case (nofit mean direction)
  then show ?thesis
    using seed_index_less [OF nofit(1), of rnd]
    by (simp add: accepted_positions_def removed_positions_def Let_def)
qed


lemma np_delete_map: "np_delete (map f xs) R = map f (np_delete xs R)"
  by (simp add: np_delete_nths nths_map)

lemma np_delete_take_rows_partition:
  assumes "distinct ids" "set G \<subseteq> {..<length ids}"
  shows "set (np_delete ids G) \<inter> set (take_rows ids G) = {}"
    and "set (np_delete ids G) \<subseteq> set ids"
    and "set (take_rows ids G) \<subseteq> set ids"
proof -
  show "set (np_delete ids G) \<inter> set (take_rows ids G) = {}"
    using assms
    by (auto simp: np_delete_nths set_nths take_rows_def nth_eq_iff_index_eq subset_iff)
  show "set (np_delete ids G) \<subseteq> set ids"
    by (simp add: np_delete_nths set_nths_subset)
  show "set (take_rows ids G) \<subseteq> set ids"
    using assms(2) by (auto simp: take_rows_def)
qed

lemma ransac_loop_ids_invariant:
  assumes "ransac_loop_ids rnd svd r ms th s ids taken = Inr (s', ids', taken')"
    and "points s = map ((!) data) ids" and "distinct ids" and "sorted ids"
    and "set ids \<subseteq> {..<length data}"
    and "distinct (concat taken)" and "set (concat taken) \<subseteq> {..<length data}"
    and "set (concat taken) \<inter> set ids = {}" and "length taken = length (lines s)"
  shows "points s' = map ((!) data) ids' \<and> distinct ids' \<and> sorted ids'
       \<and> set ids' \<subseteq> set ids
       \<and> distinct (concat taken') \<and> set (concat taken') \<subseteq> {..<length data}
       \<and> set (concat taken') \<inter> set ids' = {} \<and> length taken' = length (lines s')"
  using assms
proof (induction rnd svd r ms th s ids taken rule: ransac_loop_ids.induct)
  case (1 rnd svd r ms th s ids taken)
  note leq = ransac_loop_ids.simps [of rnd svd r ms th s ids taken]
  show ?case
  proof (cases "guard ms s")
    case False
    then have "s' = s" "ids' = ids" "taken' = taken" using "1.prems"(1) by (simp_all add: leq)
    then show ?thesis using "1.prems" by simp
  next
    case g: True
    define R where "R = removed_positions rnd svd r ms th s"
    define new where "new = (case accepted_positions rnd svd r ms th s of
                               None \<Rightarrow> [] | Some G \<Rightarrow> [take_rows ids G])"
    from g "1.prems"(1) obtain s1 where
      it: "iteration rnd svd r ms th s = Inr s1" and
      rest: "ransac_loop_ids rnd svd r ms th s1 (np_delete ids R) (taken @ new)
             = Inr (s', ids', taken')"
      by (auto simp: leq R_def new_def split: sum.splits)
    note pos = iteration_positions [OF it, folded R_def]
    have len: "length ids = length (points s)" using "1.prems"(2) by simp
    have Rr: "distinct R" "set R \<subseteq> {..<length ids}" using pos len by simp_all
    note part = np_delete_take_rows_partition [OF "1.prems"(3) Rr(2)]
    have p1: "points s1 = map ((!) data) (np_delete ids R)"
      using pos "1.prems"(2) by (simp add: np_delete_map)
    have d1: "distinct (np_delete ids R)" "sorted (np_delete ids R)"
      using "1.prems"(3,4) by (simp_all add: np_delete_nths sorted_nths)
    have s1: "set (np_delete ids R) \<subseteq> {..<length data}"
      using part(2) "1.prems"(5) by blast
    have new_cases: "new = [] \<or> new = [take_rows ids R]"
      by (auto simp: new_def R_def removed_positions_def split: option.splits)
    have dn: "distinct (concat new)"
      using new_cases distinct_take_rows [OF "1.prems"(3) Rr] by auto
    have sn: "set (concat new) \<subseteq> set (take_rows ids R)" using new_cases by auto
    have t1: "distinct (concat (taken @ new))"
      using "1.prems"(6,8) dn sn part(3) by auto
    have t2: "set (concat (taken @ new)) \<subseteq> {..<length data}"
      using "1.prems"(5,7) sn part(3) by auto
    have t3: "set (concat (taken @ new)) \<inter> set (np_delete ids R) = {}"
      using "1.prems"(8) sn part(1,2) by auto
    have t4: "length (taken @ new) = length (lines s1)"
      using pos "1.prems"(9) by (auto simp: new_def split: option.splits)
    from "1.IH" [OF g it, folded R_def new_def, OF rest p1 d1 s1 t1 t2 t3 t4]
    show ?thesis using part(2) by blast
  qed
qed

subsection \<open>One iteration on each fixture\<close>

lemma eval_bent:
  "iteration rnd_zero svd_x_axis 10 3 (1/2) (init_state cloud_bent)
   = Inr \<lparr>points = [(1, 1, 0), (100, 0, 0)], lines = [((0, 1/4, 0), (2, 1/4, 0))], iter_count = 1\<rparr>"
  by (simp add: eval_simps norm3_axis cloud_bent_def)


lemma eval_sparse:
  "iteration rnd_zero svd_x_axis 1 2 (1/2) (init_state cloud_sparse)
   = Inr \<lparr>points = [(10, 0, 0), (20, 0, 0), (30, 0, 0)], lines = [], iter_count = 1\<rparr>"
  by (simp add: eval_simps cloud_sparse_def)

lemma eval_corner:
  "iteration rnd_zero svd_x_axis 10 3 (1/10) (init_state cloud_corner)
   = Inr \<lparr>points = [(1, 0, 0), (0, 1, 0)], lines = [], iter_count = 1\<rparr>"
  by (simp add: eval_simps cloud_corner_def)

lemma fit_bent:
  "fit_line_segment svd_x_axis
     (take_rows (points (init_state cloud_bent)) (neighborhood rnd_zero 10 (init_state cloud_bent)))
   = Inr ((1, 1/4, 0), (1, 0, 0))"
  by (simp add: eval_simps cloud_bent_def)

lemma inliers_bent:
  "local_inliers rnd_zero 10 (1/2) (init_state cloud_bent) (1, 1/4, 0) (1, 0, 0) = [0, 1, 2]"
  by (simp add: eval_simps cloud_bent_def)

lemma neighborhood_bent:
  "neighborhood rnd_zero 10 (init_state cloud_bent) = [0, 1, 2, 3]"
  by (simp add: eval_simps cloud_bent_def)

lemma global_bent:
  "take_rows (neighborhood rnd_zero 10 (init_state cloud_bent))
     (local_inliers rnd_zero 10 (1/2) (init_state cloud_bent) (1, 1/4, 0) (1, 0, 0)) = [0, 1, 2]"
  by (simp add: eval_simps cloud_bent_def)

lemma fit_corner:
  "fit_line_segment svd_x_axis
     (take_rows (points (init_state cloud_corner))
        (neighborhood rnd_zero 10 (init_state cloud_corner)))
   = Inr ((1/3, 1/3, 0), (1, 0, 0))"
  by (simp add: eval_simps cloud_corner_def)

lemma inliers_corner:
  "local_inliers rnd_zero 10 (1/10) (init_state cloud_corner) (1/3, 1/3, 0) (1, 0, 0) = []"
  by (simp add: eval_simps cloud_corner_def)

lemma neighborhood_corner:
  "neighborhood rnd_zero 10 (init_state cloud_corner) = [0, 1, 2]"
  by (simp add: eval_simps cloud_corner_def)

lemma neighborhood_sparse:
  "neighborhood rnd_zero 1 (init_state cloud_sparse) = [0]"
  by (simp add: eval_simps cloud_sparse_def)

lemma eval_sparse2:
  "iteration rnd_zero svd_x_axis 1 2 (1/2)
     \<lparr>points = [(10, 0, 0), (20, 0, 0), (30, 0, 0)], lines = [], iter_count = 1\<rparr>
   = Inr \<lparr>points = [(20, 0, 0), (30, 0, 0)], lines = [], iter_count = 2\<rparr>"
  by (simp add: eval_simps)

lemma count_sparse:
  "count_iterations rnd_zero svd_x_axis 1 2 (1/2) (init_state cloud_sparse) = 2"
proof -
  let ?S1 = "\<lparr>points = [(10, 0, 0), (20, 0, 0), (30, 0, 0)], lines = [], iter_count = 1\<rparr> :: state"
  let ?S2 = "\<lparr>points = [(20, 0, 0), (30, 0, 0)], lines = [], iter_count = 2\<rparr> :: state"
  have g0: "guard 2 (init_state cloud_sparse)"
    by (simp add: guard_def init_state_def cloud_sparse_def max_iterations_def)
  have g1: "guard 2 ?S1" by (simp add: guard_def max_iterations_def)
  have g2: "\<not> guard 2 ?S2" by (simp add: guard_def)
  have c2: "count_iterations rnd_zero svd_x_axis 1 2 (1/2) ?S2 = 0"
    using g2 by (subst count_iterations.simps) simp
  have c1: "count_iterations rnd_zero svd_x_axis 1 2 (1/2) ?S1 = 1"
    using g1 c2 eval_sparse2 by (subst count_iterations.simps) simp
  show ?thesis
    using g0 c1 eval_sparse by (subst count_iterations.simps) simp
qed

lemma run_bent:
  "ransac_loop rnd_zero svd_x_axis 10 3 (1/2) (init_state cloud_bent)
   = Inr \<lparr>points = [(1, 1, 0), (100, 0, 0)], lines = [((0, 1/4, 0), (2, 1/4, 0))],
          iter_count = 1\<rparr>"
proof -
  let ?S1 = "\<lparr>points = [(1, 1, 0), (100, 0, 0)], lines = [((0, 1/4, 0), (2, 1/4, 0))],
              iter_count = 1\<rparr> :: state"
  have g0: "guard 3 (init_state cloud_bent)"
    by (simp add: guard_def init_state_def cloud_bent_def max_iterations_def)
  have g1: "\<not> guard 3 ?S1" by (simp add: guard_def)
  have l1: "ransac_loop rnd_zero svd_x_axis 10 3 (1/2) ?S1 = Inr ?S1"
    using g1 by (subst ransac_loop.simps) simp
  show ?thesis
    using g0 l1 eval_bent by (subst ransac_loop.simps) simp
qed

lemma run_local_ransac_bent:
  "run_local_ransac rnd_zero svd_x_axis cloud_bent 10 3 (1/2) = Inr [((0, 1/4, 0), (2, 1/4, 0))]"
  by (simp add: run_local_ransac_def run_bent)

lemma inlier_points_bent:
  "inlier_points rnd_zero 10 (1/2) (init_state cloud_bent) (1, 1/4, 0) (1, 0, 0)
   = [(0, 0, 0), (1, 0, 0), (2, 0, 0)]"
  by (simp add: eval_simps cloud_bent_def)





subsection \<open>A run on two collinear groups\<close>

lemma eval_two:
  "iteration rnd_zero svd_x_axis 5 3 (1/2) (init_state cloud_two)
   = Inr \<lparr>points = [(10, 0, 0), (11, 0, 0), (12, 0, 0), (50, 0, 0)],
          lines = [((0, 0, 0), (2, 0, 0))], iter_count = 1\<rparr>"
  by (simp add: eval_simps norm3_axis cloud_two_def)

lemma accepted_two:
  "accepted_positions rnd_zero svd_x_axis 5 3 (1/2) (init_state cloud_two) = Some [0, 1, 2]"
  by (simp add: accepted_positions_def eval_simps norm3_axis cloud_two_def)

lemma eval_two2:
  "iteration rnd_zero svd_x_axis 5 3 (1/2)
     \<lparr>points = [(10, 0, 0), (11, 0, 0), (12, 0, 0), (50, 0, 0)],
      lines = [((0, 0, 0), (2, 0, 0))], iter_count = 1\<rparr>
   = Inr \<lparr>points = [(50, 0, 0)],
          lines = [((0, 0, 0), (2, 0, 0)), ((10, 0, 0), (12, 0, 0))], iter_count = 2\<rparr>"
  by (simp add: eval_simps norm3_axis)

lemma accepted_two2:
  "accepted_positions rnd_zero svd_x_axis 5 3 (1/2)
     \<lparr>points = [(10, 0, 0), (11, 0, 0), (12, 0, 0), (50, 0, 0)],
      lines = [((0, 0, 0), (2, 0, 0))], iter_count = 1\<rparr> = Some [0, 1, 2]"
  by (simp add: accepted_positions_def eval_simps norm3_axis)

lemma run_ids_two:
  "ransac_loop_ids rnd_zero svd_x_axis 5 3 (1/2) (init_state cloud_two) [0..<length cloud_two] []
   = Inr (\<lparr>points = [(50, 0, 0)],
            lines = [((0, 0, 0), (2, 0, 0)), ((10, 0, 0), (12, 0, 0))], iter_count = 2\<rparr>,
          [6], [[0, 1, 2], [3, 4, 5]])"
proof -
  let ?S1 = "\<lparr>points = [(10, 0, 0), (11, 0, 0), (12, 0, 0), (50, 0, 0)],
              lines = [((0, 0, 0), (2, 0, 0))], iter_count = 1\<rparr> :: state"
  let ?S2 = "\<lparr>points = [(50, 0, 0)],
              lines = [((0, 0, 0), (2, 0, 0)), ((10, 0, 0), (12, 0, 0))], iter_count = 2\<rparr> :: state"
  have g0: "guard 3 (init_state cloud_two)"
    by (simp add: guard_def init_state_def cloud_two_def max_iterations_def)
  have g1: "guard 3 ?S1" by (simp add: guard_def max_iterations_def)
  have g2: "\<not> guard 3 ?S2" by (simp add: guard_def)
  have n: "[0..<length cloud_two] = [0, 1, 2, 3, 4, 5, 6]"
    by (simp add: cloud_two_def upt_rec)
  have d0: "np_delete [0, 1, 2, 3, 4, 5, 6] [0, 1, 2] = [3, 4, 5, 6::nat]"
    by (simp add: np_delete_def upt_rec)
  have d1: "np_delete [3, 4, 5, 6] [0, 1, 2] = [6::nat]"
    by (simp add: np_delete_def upt_rec)
  have l2: "ransac_loop_ids rnd_zero svd_x_axis 5 3 (1/2) ?S2 [6] [[0, 1, 2], [3, 4, 5]]
            = Inr (?S2, [6], [[0, 1, 2], [3, 4, 5]])"
    using g2 by (subst ransac_loop_ids.simps) simp
  have l1: "ransac_loop_ids rnd_zero svd_x_axis 5 3 (1/2) ?S1 [3, 4, 5, 6] [[0, 1, 2]]
            = Inr (?S2, [6], [[0, 1, 2], [3, 4, 5]])"
    using g1 l2 eval_two2 accepted_two2 d1
    by (subst ransac_loop_ids.simps) (simp add: removed_positions_def take_rows_def)
  show ?thesis
    unfolding n using g0 l1 eval_two accepted_two d0
    by (subst ransac_loop_ids.simps) (simp add: removed_positions_def take_rows_def)
qed

subsection \<open>Allocation leaves the arrays in use unchanged\<close>

lemma alloc_frame:
  assumes "alloc st a = (p, st')"
  shows "p = next_addr st" and "next_addr st' = Suc (next_addr st)" and "arrays st' p = a"
    and "\<And>b. b < next_addr st \<Longrightarrow> arrays st' b = arrays st b"
  using assms by (auto simp: alloc_def)

lemma iteration_store_frame:
  assumes "iteration_store rnd svd r ms th st f = (st', res)"
  shows "next_addr st \<le> next_addr st'"
    and "\<And>b. b < next_addr st \<Longrightarrow> arrays st' b = arrays st b"
    and "map_sum (\<lambda>e. e) (read_state st') res = iteration rnd svd r ms th (read_state st f)"
    and "\<And>f'. res = Inr f' \<Longrightarrow> points_ref f' < next_addr st' \<and> next_addr st \<le> points_ref f'"
  using assms
  by (auto simp: iteration_store_def alloc_def read_state_def split: sum.splits)

lemma ransac_loop_store_frame:
  assumes "ransac_loop_store rnd svd r ms th st f = (st', res)"
  shows "next_addr st \<le> next_addr st'
       \<and> (\<forall>b < next_addr st. arrays st' b = arrays st b)
       \<and> map_sum (\<lambda>e. e) (read_state st') res = ransac_loop rnd svd r ms th (read_state st f)"
  using assms
proof (induction rnd svd r ms th st f rule: ransac_loop_store.induct)
  case (1 rnd svd r ms th st f)
  note leq = ransac_loop_store.simps [of rnd svd r ms th st f]
  note peq = ransac_loop.simps [of rnd svd r ms th "read_state st f"]
  show ?case
  proof (cases "guard ms (read_state st f)")
    case False
    then have "st' = st" "res = Inr f" using "1.prems" by (simp_all add: leq)
    then show ?thesis using False by (simp add: peq)
  next
    case g: True
    obtain st1 res1 where it: "iteration_store rnd svd r ms th st f = (st1, res1)"
      by (cases "iteration_store rnd svd r ms th st f")
    note fr = iteration_store_frame [OF it]
    show ?thesis
    proof (cases res1)
      case (Inl e)
      then have "st' = st1" "res = Inl e" using "1.prems" g it by (simp_all add: leq)
      moreover have "iteration rnd svd r ms th (read_state st f) = Inl e"
        using fr(3) Inl by simp
      then have "ransac_loop rnd svd r ms th (read_state st f) = Inl e"
        using g by (simp add: peq)
      ultimately show ?thesis using fr(1,2) by simp
    next
      case (Inr f1)
      then have rest: "ransac_loop_store rnd svd r ms th st1 f1 = (st', res)"
        using "1.prems" g it by (simp add: leq)
      have ih: "next_addr st1 \<le> next_addr st'
       \<and> (\<forall>b < next_addr st1. arrays st' b = arrays st1 b)
       \<and> map_sum (\<lambda>e. e) (read_state st') res = ransac_loop rnd svd r ms th (read_state st1 f1)"
        using "1.IH" [OF g it [symmetric] _ rest] Inr by simp
      have "iteration rnd svd r ms th (read_state st f) = Inr (read_state st1 f1)"
        using fr(3) Inr by simp
      then have "ransac_loop rnd svd r ms th (read_state st f)
                 = ransac_loop rnd svd r ms th (read_state st1 f1)"
        using g by (simp add: peq)
      then show ?thesis using ih fr(1,2) by auto
    qed
  qed
qed

subsection \<open>Runs with a radius or a threshold that is not positive, and runs that raise\<close>








subsection \<open>Sums of squared distances to a line\<close>

lemma norm3_sq: "(norm3 v)\<^sup>2 = sumsq v"
  by (simp add: norm3_def sumsq_nonneg)

lemma sum_dot_vsub:
  "(\<Sum>p\<leftarrow>ps. dot (vsub p m) w)
   = dot (vsub (sum_list (map fst ps), sum_list (map (fst \<circ> snd) ps), sum_list (map (snd \<circ> snd) ps))
               (smul m (real (length ps)))) w"
proof (induction ps)
  case Nil
  show ?case by (cases m; cases w) simp
next
  case (Cons p ps)
  then show ?case by (cases m; cases w; cases p) (simp add: algebra_simps)
qed

lemma centred_sum_zero:
  assumes "ps \<noteq> []"
  shows "vsub (sum_list (map fst ps), sum_list (map (fst \<circ> snd) ps), sum_list (map (snd \<circ> snd) ps))
              (smul (np_mean ps) (real (length ps))) = (0, 0, 0)"
  using assms by (simp add: np_mean_def Let_def)

lemma sum_dot_centred:
  assumes "ps \<noteq> []"
  shows "(\<Sum>p\<leftarrow>ps. dot (vsub p (np_mean ps)) w) = 0"
  unfolding sum_dot_vsub centred_sum_zero [OF assms] by (cases w) simp

lemma vsub_split: "vsub p a = vadd (vsub p m) (vsub m a)"
  by (cases p; cases a; cases m) simp

lemma cross_vadd: "cross (vadd x y) v = vadd (cross x v) (cross y v)"
  by (cases x; cases y; cases v) (simp add: algebra_simps)

lemma sumsq_vadd: "sumsq (vadd x y) = sumsq x + 2 * dot x y + sumsq y"
  by (cases x; cases y) (simp add: algebra_simps)

lemma dot_cross_swap: "dot (cross x v) w = dot x (cross v w)"
  by (cases x; cases v; cases w) (simp add: algebra_simps)

lemma sum_sumsq_shift:
  assumes "ps \<noteq> []"
  shows "(\<Sum>p\<leftarrow>ps. sumsq (vsub p a))
         = (\<Sum>p\<leftarrow>ps. sumsq (vsub p (np_mean ps)))
           + real (length ps) * sumsq (vsub (np_mean ps) a)"
proof -
  let ?m = "np_mean ps" and ?c = "vsub (np_mean ps) a"
  have "(\<Sum>p\<leftarrow>ps. sumsq (vsub p a))
        = (\<Sum>p\<leftarrow>ps. sumsq (vsub p ?m) + 2 * dot (vsub p ?m) ?c + sumsq ?c)"
    by (subst vsub_split [of _ a ?m]) (simp only: sumsq_vadd)
  also have "\<dots> = (\<Sum>p\<leftarrow>ps. sumsq (vsub p ?m)) + 2 * (\<Sum>p\<leftarrow>ps. dot (vsub p ?m) ?c)
                   + real (length ps) * sumsq ?c"
    by (simp add: sum_list_addf sum_list_const_mult sum_list_triv)
  finally show ?thesis by (simp add: sum_dot_centred [OF assms])
qed

lemma sum_cross_shift:
  assumes "ps \<noteq> []"
  shows "(\<Sum>p\<leftarrow>ps. sumsq (cross (vsub p a) v))
         = (\<Sum>p\<leftarrow>ps. sumsq (cross (vsub p (np_mean ps)) v))
           + real (length ps) * sumsq (cross (vsub (np_mean ps) a) v)"
proof -
  let ?m = "np_mean ps" and ?c = "cross (vsub (np_mean ps) a) v"
  have "(\<Sum>p\<leftarrow>ps. sumsq (cross (vsub p a) v))
        = (\<Sum>p\<leftarrow>ps. sumsq (cross (vsub p ?m) v) + 2 * dot (vsub p ?m) (cross v ?c) + sumsq ?c)"
    by (subst vsub_split [of _ a ?m]) (simp only: cross_vadd sumsq_vadd dot_cross_swap)
  also have "\<dots> = (\<Sum>p\<leftarrow>ps. sumsq (cross (vsub p ?m) v))
                   + 2 * (\<Sum>p\<leftarrow>ps. dot (vsub p ?m) (cross v ?c))
                   + real (length ps) * sumsq ?c"
    by (simp add: sum_list_addf sum_list_const_mult sum_list_triv)
  finally show ?thesis by (simp add: sum_dot_centred [OF assms])
qed

lemma sum_cross_unit:
  assumes "norm3 v = 1"
  shows "(\<Sum>q\<leftarrow>qs. sumsq (cross q v)) = (\<Sum>q\<leftarrow>qs. sumsq q) - (\<Sum>q\<leftarrow>qs. (dot q v)\<^sup>2)"
proof -
  have "sumsq v = 1" using assms by (simp add: norm3_def)
  then show ?thesis by (simp add: lagrange sum_list_subtractf)
qed

lemma fit_kite:
  "fit_line_segment svd_x_axis cloud_kite = Inr ((1, 1/4, 0), (1, 0, 0))"
  by (simp add: fit_line_segment_def np_mean_def svd_x_axis_def cloud_kite_def)

lemma first_right_singular_kite:
  "first_right_singular (map (\<lambda>p. vsub p (1, 1/4, 0)) cloud_kite) (1, 0, 0)"
  unfolding first_right_singular_def
proof (intro conjI allI impI)
  show "norm3 (1, 0, 0) = 1" by (simp add: norm3_axis)
next
  fix v :: vec3
  assume v: "norm3 v = 1"
  obtain x y z where xyz: "v = (x, y, z)" by (cases v)
  have "sumsq v = 1" using v by (simp add: norm3_def)
  then have one: "x * x + y * y + z * z = 1" by (simp add: xyz)
  have "0 \<le> y * y" "0 \<le> z * z" by simp_all
  then have "2 * (x * x) + 3 / 4 * (y * y) \<le> 2 * (x * x + y * y + z * z)" by simp
  then have "2 * (x * x) + 3 / 4 * (y * y) \<le> 2" using one by simp
  moreover have "(\<Sum>q\<leftarrow>map (\<lambda>p. vsub p (1, 1/4, 0)) cloud_kite. (dot q v)\<^sup>2)
                 = 2 * (x * x) + 3 / 4 * (y * y)"
    by (simp add: cloud_kite_def xyz power2_eq_square algebra_simps)
  moreover have "(\<Sum>q\<leftarrow>map (\<lambda>p. vsub p (1, 1/4, 0)) cloud_kite. (dot q (1, 0, 0))\<^sup>2) = 2"
    by (simp add: cloud_kite_def)
  ultimately show "(\<Sum>q\<leftarrow>map (\<lambda>p. vsub p (1, 1/4, 0)) cloud_kite. (dot q v)\<^sup>2)
                   \<le> (\<Sum>q\<leftarrow>map (\<lambda>p. vsub p (1, 1/4, 0)) cloud_kite. (dot q (1, 0, 0))\<^sup>2)"
    by simp
qed

lemma svd_contract_kite:
  "svd_contract svd_x_axis (map (\<lambda>p. vsub p (1, 1/4, 0)) cloud_kite)"
  using first_right_singular_kite by (simp add: svd_contract_def svd_x_axis_def)

section \<open>Input validation (C1)\<close>




section \<open>Conservation of points (C2)\<close>

text \<open>
  C2: every point appearing in an emitted segment's inlier set was present in the input
  exactly once and is removed from the pool exactly once; the inlier sets of the accepted
  segments are pairwise disjoint, and the pool only shrinks, with no re-insertion. A point is
  identified by its row number in the input. Running the loop with the row numbers beside it,
  from all rows \<open>[0..<length data]\<close> and no segment: the run returns the same segments as
  \<open>run_local_ransac\<close>, one inlier list per segment; every inlier is a row of the input;
  no row number occurs twice in the concatenation of the inlier lists, so no row is taken
  twice and the lists are pairwise disjoint; no taken row is left in the pool; and the final
  pool consists of rows of the input at distinct, increasing positions, each row unchanged.
\<close>

theorem C2_inlier_sets_disjoint_and_removed_once:
  assumes "ransac_loop_ids rnd svd r ms th (init_state data) [0..<length data] []
           = Inr (s', ids', taken')"
  shows "run_local_ransac rnd svd data r ms th = Inr (lines s')
       \<and> length taken' = length (lines s')
       \<and> set (concat taken') \<subseteq> {..<length data}
       \<and> distinct (concat taken')
       \<and> set (concat taken') \<inter> set ids' = {}
       \<and> distinct ids' \<and> sorted ids' \<and> set ids' \<subseteq> {..<length data}
       \<and> points s' = map (\<lambda>i. data ! i) ids'"
proof -
  have "map_sum id fst (ransac_loop_ids rnd svd r ms th (init_state data) [0..<length data] [])
        = ransac_loop rnd svd r ms th (init_state data)"
    by (rule ransac_loop_ids_erasure)
  then have "ransac_loop rnd svd r ms th (init_state data) = Inr s'"
    using assms by simp
  then have run: "run_local_ransac rnd svd data r ms th = Inr (lines s')"
    by (simp add: run_local_ransac_def)
  have p0: "points (init_state data) = map ((!) data) [0..<length data]"
    by (simp add: init_state_def map_nth)
  have inv: "points s' = map ((!) data) ids' \<and> distinct ids' \<and> sorted ids'
       \<and> set ids' \<subseteq> set [0..<length data]
       \<and> distinct (concat taken') \<and> set (concat taken') \<subseteq> {..<length data}
       \<and> set (concat taken') \<inter> set ids' = {} \<and> length taken' = length (lines s')"
    by (rule ransac_loop_ids_invariant [OF assms p0]) (auto simp: init_state_def)
  then have "set ids' \<subseteq> {..<length data}" by auto
  with run inv show ?thesis by blast
qed

text \<open>
  On \<open>cloud_two\<close>, two groups of three collinear points and one far point: two segments,
  fitted to rows 0, 1, 2 and rows 3, 4, 5; row 6 is left in the pool.
\<close>

theorem C2_inlier_sets_disjoint_and_removed_once_witness:
  "ransac_loop_ids rnd_zero svd_x_axis 5 3 (1/2) (init_state cloud_two) [0..<length cloud_two] []
   = Inr (\<lparr>points = [(50, 0, 0)],
            lines = [((0, 0, 0), (2, 0, 0)), ((10, 0, 0), (12, 0, 0))], iter_count = 2\<rparr>,
          [6], [[0, 1, 2], [3, 4, 5]])
   \<and> run_local_ransac rnd_zero svd_x_axis cloud_two 5 3 (1/2)
     = Inr [((0, 0, 0), (2, 0, 0)), ((10, 0, 0), (12, 0, 0))]
   \<and> set (concat [[0, 1, 2], [3, 4, 5::nat]]) \<subseteq> {..<length cloud_two}
   \<and> distinct (concat [[0, 1, 2], [3, 4, 5::nat]])
   \<and> set (concat [[0, 1, 2], [3, 4, 5::nat]]) \<inter> set [6] = {}"
  using C2_inlier_sets_disjoint_and_removed_once [OF run_ids_two] run_ids_two
  by simp

section \<open>Segment endpoints (C3)\<close>

text \<open>
  C3: whenever an iteration accepts a segment, the segment appended to \<open>lines\<close> is
  \<open>(anchor + direction * lo, anchor + direction * hi)\<close>, where \<open>(anchor, direction)\<close> is the
  line fitted to the local points and \<open>lo\<close> and \<open>hi\<close> are the least and the greatest of
  the numbers \<open>t = dot (p - anchor) direction\<close>, \<open>p\<close> ranging over the inlier points: each of
  \<open>lo\<close> and \<open>hi\<close> is the projection of some inlier, and the projection of every inlier lies
  between them. Both endpoints are on the fitted line, and for a direction of unit length
  their own projections are \<open>lo\<close> and \<open>hi\<close>: the segment spans exactly the projection range
  of its inliers.
\<close>

theorem C3_endpoints_span_projections:
  assumes "iteration rnd svd r ms th s = Inr s'" and "lines s' \<noteq> lines s"
  shows "\<exists>mean direction lo hi.
           fit_line_segment svd (take_rows (points s) (neighborhood rnd r s)) = Inr (mean, direction)
         \<and> ms \<le> int (length (local_inliers rnd r th s mean direction))
         \<and> lines s' = lines s @ [(vadd mean (smul direction lo), vadd mean (smul direction hi))]
         \<and> (\<exists>p \<in> set (inlier_points rnd r th s mean direction). lo = dot (vsub p mean) direction)
         \<and> (\<exists>p \<in> set (inlier_points rnd r th s mean direction). hi = dot (vsub p mean) direction)
         \<and> (\<forall>p \<in> set (inlier_points rnd r th s mean direction).
              lo \<le> dot (vsub p mean) direction \<and> dot (vsub p mean) direction \<le> hi)
         \<and> (norm3 direction = 1 \<longrightarrow>
              dot (vsub (vadd mean (smul direction lo)) mean) direction = lo
            \<and> dot (vsub (vadd mean (smul direction hi)) mean) direction = hi)"
  using assms(1)
proof (cases rule: iteration_cases)
  case noise
  with assms(2) show ?thesis by simp
next
  case (accept mean direction lo hi)
  let ?ps = "inlier_points rnd r th s mean direction"
  let ?f = "\<lambda>p. dot (vsub p mean) direction"
  from accept(5,6) have ne: "?ps \<noteq> []"
    and lo: "lo = Min (?f ` set ?ps)" and hi: "hi = Max (?f ` set ?ps)"
    by (auto simp: np_min_Inr np_max_Inr set_projections projections_def)
  have fin: "finite (?f ` set ?ps)" "?f ` set ?ps \<noteq> {}" using ne by simp_all
  have a: "\<exists>p \<in> set ?ps. lo = ?f p"
    using Min_in [OF fin] unfolding lo by blast
  have b: "\<exists>p \<in> set ?ps. hi = ?f p"
    using Max_in [OF fin] unfolding hi by blast
  have c: "\<forall>p \<in> set ?ps. lo \<le> ?f p \<and> ?f p \<le> hi"
    unfolding lo hi using fin(1) by simp
  have d: "norm3 direction = 1 \<longrightarrow>
              dot (vsub (vadd mean (smul direction lo)) mean) direction = lo
            \<and> dot (vsub (vadd mean (smul direction hi)) mean) direction = hi"
    by (simp add: dot_endpoint)
  have l: "lines s' = lines s @ [(vadd mean (smul direction lo), vadd mean (smul direction hi))]"
    using accept(7) by simp
  show ?thesis
    using accept(3,4) l a b c d by blast
next
  case (nofit mean direction)
  with assms(2) show ?thesis by simp
qed

text \<open>
  The iteration on \<open>cloud_bent\<close> (radius 10, \<open>min_samples\<close> 3, threshold \<open>1/2\<close>) fits the
  anchor \<open>(1, 1/4, 0)\<close> and the direction \<open>(1, 0, 0)\<close>; the inliers \<open>(0, 0, 0)\<close>,
  \<open>(1, 0, 0)\<close>, \<open>(2, 0, 0)\<close> project to \<open>-1\<close>, \<open>0\<close>, \<open>1\<close>, and the segment runs from
  \<open>(0, 1/4, 0)\<close> to \<open>(2, 1/4, 0)\<close>.
\<close>

theorem C3_endpoints_span_projections_witness:
  "iteration rnd_zero svd_x_axis 10 3 (1/2) (init_state cloud_bent)
     = Inr \<lparr>points = [(1, 1, 0), (100, 0, 0)], lines = [((0, 1/4, 0), (2, 1/4, 0))],
            iter_count = 1\<rparr>
   \<and> [((0, 1/4, 0), (2, 1/4, 0))] \<noteq> lines (init_state cloud_bent)
   \<and> norm3 (1, 0, 0) = 1
   \<and> (\<exists>lo hi.
         (0, 1/4, 0) = vadd (1, 1/4, 0) (smul (1, 0, 0) lo)
       \<and> (2, 1/4, 0) = vadd (1, 1/4, 0) (smul (1, 0, 0) hi)
       \<and> lo \<in> set (map (\<lambda>p. dot (vsub p (1, 1/4, 0)) (1, 0, 0)) [(0, 0, 0), (1, 0, 0), (2, 0, 0)])
       \<and> hi \<in> set (map (\<lambda>p. dot (vsub p (1, 1/4, 0)) (1, 0, 0)) [(0, 0, 0), (1, 0, 0), (2, 0, 0)])
       \<and> list_all (\<lambda>p. lo \<le> dot (vsub p (1, 1/4, 0)) (1, 0, 0)
                      \<and> dot (vsub p (1, 1/4, 0)) (1, 0, 0) \<le> hi)
            [(0, 0, 0), (1, 0, 0), (2, 0, 0)]
       \<and> dot (vsub (0, 1/4, 0) (1, 1/4, 0)) (1, 0, 0) = lo
       \<and> dot (vsub (2, 1/4, 0) (1, 1/4, 0)) (1, 0, 0) = hi)"
proof -
  let ?S = "\<lparr>points = [(1, 1, 0), (100, 0, 0)], lines = [((0, 1/4, 0), (2, 1/4, 0))],
             iter_count = 1\<rparr> :: state"
  let ?ps = "[(0, 0, 0), (1, 0, 0), (2, 0, 0)] :: vec3 list"
  let ?f = "\<lambda>p. dot (vsub p (1, 1/4, 0)) (1, 0, 0)"
  have h2: "lines ?S \<noteq> lines (init_state cloud_bent)"
    by (simp add: init_state_def)
  have u: "norm3 (1, 0, 0) = 1" by (simp add: norm3_axis)
  from C3_endpoints_span_projections [OF eval_bent h2] obtain mean direction lo hi where
    f: "fit_line_segment svd_x_axis
         (take_rows (points (init_state cloud_bent))
            (neighborhood rnd_zero 10 (init_state cloud_bent))) = Inr (mean, direction)" and
    l: "lines ?S = lines (init_state cloud_bent) @
         [(vadd mean (smul direction lo), vadd mean (smul direction hi))]" and
    a: "\<exists>p \<in> set (inlier_points rnd_zero 10 (1/2) (init_state cloud_bent) mean direction).
          lo = dot (vsub p mean) direction" and
    b: "\<exists>p \<in> set (inlier_points rnd_zero 10 (1/2) (init_state cloud_bent) mean direction).
          hi = dot (vsub p mean) direction" and
    c: "\<forall>p \<in> set (inlier_points rnd_zero 10 (1/2) (init_state cloud_bent) mean direction).
          lo \<le> dot (vsub p mean) direction \<and> dot (vsub p mean) direction \<le> hi" and
    d: "norm3 direction = 1 \<longrightarrow>
              dot (vsub (vadd mean (smul direction lo)) mean) direction = lo
            \<and> dot (vsub (vadd mean (smul direction hi)) mean) direction = hi"
    by blast
  from f have md: "mean = (1, 1/4, 0)" "direction = (1, 0, 0)"
    by (simp_all add: fit_bent)
  from l have e: "(0, 1/4, 0) = vadd (1, 1/4, 0) (smul (1, 0, 0) lo)"
                 "(2, 1/4, 0) = vadd (1, 1/4, 0) (smul (1, 0, 0) hi)"
    unfolding md by (simp_all add: init_state_def)
  from a have a': "lo \<in> set (map ?f ?ps)"
    unfolding md inlier_points_bent by auto
  from b have b': "hi \<in> set (map ?f ?ps)"
    unfolding md inlier_points_bent by auto
  from c have c': "list_all (\<lambda>p. lo \<le> ?f p \<and> ?f p \<le> hi) ?ps"
    unfolding md inlier_points_bent by (simp add: list_all_iff)
  from d u have d': "dot (vsub (vadd (1, 1/4, 0) (smul (1, 0, 0) lo)) (1, 1/4, 0)) (1, 0, 0) = lo"
    "dot (vsub (vadd (1, 1/4, 0) (smul (1, 0, 0) hi)) (1, 1/4, 0)) (1, 0, 0) = hi"
    unfolding md by blast+
  have d'': "dot (vsub (0, 1/4, 0) (1, 1/4, 0)) (1, 0, 0) = lo"
    "dot (vsub (2, 1/4, 0) (1, 1/4, 0)) (1, 0, 0) = hi"
    using d' e by simp_all
  have "\<exists>lo hi.
         (0, 1/4, 0) = vadd (1, 1/4, 0) (smul (1, 0, 0) lo)
       \<and> (2, 1/4, 0) = vadd (1, 1/4, 0) (smul (1, 0, 0) hi)
       \<and> lo \<in> set (map ?f ?ps) \<and> hi \<in> set (map ?f ?ps)
       \<and> list_all (\<lambda>p. lo \<le> ?f p \<and> ?f p \<le> hi) ?ps
       \<and> dot (vsub (0, 1/4, 0) (1, 1/4, 0)) (1, 0, 0) = lo
       \<and> dot (vsub (2, 1/4, 0) (1, 1/4, 0)) (1, 0, 0) = hi"
    using e a' b' c' d'' by blast
  then show ?thesis
    using eval_bent h2 u by simp
qed

section \<open>What each branch removes from the pool (C4)\<close>

text \<open>
  C4: an iteration that returns changes the pool in one of three ways.
  When the neighbourhood has fewer than \<open>min_samples\<close> positions (reject as noise), and
  when the fit has fewer than \<open>min_samples\<close> inliers (failure), exactly the row at the seed
  position is removed: the pool becomes the rows before it followed by the rows after
  it, and no segment is appended. When the fit has at least \<open>min_samples\<close> inliers
  (success), exactly the rows at the inlier positions are removed: the pool becomes the
  rows at all other positions, in order (so local points that are not inliers stay), the
  inlier positions are positions of the neighbourhood, and the pool shrinks by the
  number of inliers.
\<close>

theorem C4_pool_frame:
  assumes "iteration rnd svd r ms th s = Inr s'"
  shows "(int (length (neighborhood rnd r s)) < ms \<longrightarrow>
            points s' = take (seed_index rnd s) (points s) @ drop (Suc (seed_index rnd s)) (points s)
          \<and> lines s' = lines s)
       \<and> (ms \<le> int (length (neighborhood rnd r s)) \<longrightarrow>
            (\<exists>mean direction.
               fit_line_segment svd (take_rows (points s) (neighborhood rnd r s))
                 = Inr (mean, direction)
             \<and> (ms \<le> int (length (local_inliers rnd r th s mean direction)) \<longrightarrow>
                  points s' = nths (points s)
                    (- set (take_rows (neighborhood rnd r s)
                              (local_inliers rnd r th s mean direction)))
                \<and> set (take_rows (neighborhood rnd r s) (local_inliers rnd r th s mean direction))
                    \<subseteq> set (neighborhood rnd r s)
                \<and> length (points s')
                    = length (points s) - length (local_inliers rnd r th s mean direction))
             \<and> (int (length (local_inliers rnd r th s mean direction)) < ms \<longrightarrow>
                  points s' = take (seed_index rnd s) (points s)
                                @ drop (Suc (seed_index rnd s)) (points s)
                \<and> lines s' = lines s)))"
  using assms
proof (cases rule: iteration_cases)
  case noise
  then show ?thesis
    by (simp add: np_delete_single seed_index_less)
next
  case (accept mean direction lo hi)
  let ?G = "take_rows (neighborhood rnd r s) (local_inliers rnd r th s mean direction)"
  have "points s' = nths (points s) (- set ?G)"
    using accept(7) by (simp add: np_delete_nths)
  moreover have "set ?G \<subseteq> set (neighborhood rnd r s)"
    by (rule global_inliers_facts(2))
  moreover have "length (points s')
      = length (points s) - length (local_inliers rnd r th s mean direction)"
    using accept(7) global_inliers_facts(1,3,4) [of "points s" "seed_index rnd s" r mean direction th]
    by (simp add: length_np_delete)
  ultimately show ?thesis
    using accept(2,3,4) by auto
next
  case (nofit mean direction)
  then show ?thesis
    by (auto simp: np_delete_single seed_index_less)
qed


text \<open>
  The three branches on the fixtures: \<open>cloud_sparse\<close> (noise, the seed is dropped),
  \<open>cloud_bent\<close> (success, positions 0, 1, 2 are dropped, the local point \<open>(1, 1, 0)\<close> and the
  far point stay) and \<open>cloud_corner\<close> (failure, the seed is dropped).
\<close>

theorem C4_pool_frame_witness:
  "iteration rnd_zero svd_x_axis 1 2 (1/2) (init_state cloud_sparse)
     = Inr \<lparr>points = [(10, 0, 0), (20, 0, 0), (30, 0, 0)], lines = [], iter_count = 1\<rparr>
   \<and> int (length (neighborhood rnd_zero 1 (init_state cloud_sparse))) < 2
   \<and> [(10, 0, 0), (20, 0, 0), (30, 0, 0)] = take 0 cloud_sparse @ drop (Suc 0) cloud_sparse
   \<and> iteration rnd_zero svd_x_axis 10 3 (1/2) (init_state cloud_bent)
     = Inr \<lparr>points = [(1, 1, 0), (100, 0, 0)], lines = [((0, 1/4, 0), (2, 1/4, 0))],
            iter_count = 1\<rparr>
   \<and> 3 \<le> int (length (neighborhood rnd_zero 10 (init_state cloud_bent)))
   \<and> 3 \<le> int (length (local_inliers rnd_zero 10 (1/2) (init_state cloud_bent)
                          (1, 1/4, 0) (1, 0, 0)))
   \<and> [(1, 1, 0), (100, 0, 0)] = nths cloud_bent (- {0, 1, 2})
   \<and> iteration rnd_zero svd_x_axis 10 3 (1/10) (init_state cloud_corner)
     = Inr \<lparr>points = [(1, 0, 0), (0, 1, 0)], lines = [], iter_count = 1\<rparr>
   \<and> 3 \<le> int (length (neighborhood rnd_zero 10 (init_state cloud_corner)))
   \<and> int (length (local_inliers rnd_zero 10 (1/10) (init_state cloud_corner)
                     (1/3, 1/3, 0) (1, 0, 0))) < 3
   \<and> [(1, 0, 0), (0, 1, 0)] = take 0 cloud_corner @ drop (Suc 0) cloud_corner"
proof -
  have n1: "int (length (neighborhood rnd_zero 1 (init_state cloud_sparse))) < 2"
    by (simp add: neighborhood_sparse)
  from C4_pool_frame [OF eval_sparse] n1
  have "points \<lparr>points = [(10, 0, 0), (20, 0, 0), (30, 0, 0)], lines = [], iter_count = 1\<rparr>
        = take (seed_index rnd_zero (init_state cloud_sparse)) (points (init_state cloud_sparse))
          @ drop (Suc (seed_index rnd_zero (init_state cloud_sparse)))
              (points (init_state cloud_sparse))"
    by blast
  then have noise:
    "[(10, 0, 0), (20, 0, 0), (30, 0, 0)] = take 0 cloud_sparse @ drop (Suc 0) cloud_sparse"
    by (simp add: init_state_def seed_index_def rnd_zero_def)
  have n2: "3 \<le> int (length (neighborhood rnd_zero 10 (init_state cloud_bent)))"
    by (simp add: neighborhood_bent)
  have n3: "3 \<le> int (length (neighborhood rnd_zero 10 (init_state cloud_corner)))"
    by (simp add: neighborhood_corner)
  from C4_pool_frame [OF eval_bent] obtain mean direction where
    f: "fit_line_segment svd_x_axis
          (take_rows (points (init_state cloud_bent))
             (neighborhood rnd_zero 10 (init_state cloud_bent))) = Inr (mean, direction)" and
    a: "3 \<le> int (length (local_inliers rnd_zero 10 (1/2) (init_state cloud_bent) mean direction))
        \<longrightarrow> [(1, 1, 0), (100, 0, 0)] = nths (points (init_state cloud_bent))
              (- set (take_rows (neighborhood rnd_zero 10 (init_state cloud_bent))
                        (local_inliers rnd_zero 10 (1/2) (init_state cloud_bent) mean direction)))"
    using n2 by auto
  from f have md: "mean = (1, 1/4, 0)" "direction = (1, 0, 0)"
    by (simp_all add: fit_bent)
  have i2: "3 \<le> int (length (local_inliers rnd_zero 10 (1/2) (init_state cloud_bent)
                               (1, 1/4, 0) (1, 0, 0)))"
    by (simp add: inliers_bent)
  from a i2 have "[(1, 1, 0), (100, 0, 0)] = nths (points (init_state cloud_bent))
              (- set (take_rows (neighborhood rnd_zero 10 (init_state cloud_bent))
                        (local_inliers rnd_zero 10 (1/2) (init_state cloud_bent)
                           (1, 1/4, 0) (1, 0, 0))))"
    unfolding md by blast
  then have accept: "[(1, 1, 0), (100, 0, 0)] = nths cloud_bent (- {0, 1, 2})"
    unfolding global_bent by (simp add: init_state_def)
  from C4_pool_frame [OF eval_corner] obtain mean' direction' where
    f': "fit_line_segment svd_x_axis
          (take_rows (points (init_state cloud_corner))
             (neighborhood rnd_zero 10 (init_state cloud_corner))) = Inr (mean', direction')" and
    b: "int (length (local_inliers rnd_zero 10 (1/10) (init_state cloud_corner) mean' direction')) < 3
        \<longrightarrow> [(1, 0, 0), (0, 1, 0)]
             = take (seed_index rnd_zero (init_state cloud_corner)) (points (init_state cloud_corner))
               @ drop (Suc (seed_index rnd_zero (init_state cloud_corner)))
                   (points (init_state cloud_corner))"
    using n3 by auto
  from f' have md': "mean' = (1/3, 1/3, 0)" "direction' = (1, 0, 0)"
    by (simp_all add: fit_corner)
  have i3: "int (length (local_inliers rnd_zero 10 (1/10) (init_state cloud_corner)
                          (1/3, 1/3, 0) (1, 0, 0))) < 3"
    by (simp add: inliers_corner)
  from b i3 have "[(1, 0, 0), (0, 1, 0)]
             = take (seed_index rnd_zero (init_state cloud_corner)) (points (init_state cloud_corner))
               @ drop (Suc (seed_index rnd_zero (init_state cloud_corner)))
                   (points (init_state cloud_corner))"
    unfolding md' by blast
  then have nofit: "[(1, 0, 0), (0, 1, 0)] = take 0 cloud_corner @ drop (Suc 0) cloud_corner"
    by (simp add: init_state_def seed_index_def rnd_zero_def)
  show ?thesis
    using noise accept nofit eval_sparse eval_bent eval_corner n1 n2 n3 i2 i3
    by (intro conjI)
qed

section \<open>The segment fitter (C5)\<close>

text \<open>
  C5: for every non-empty list of points, when the decomposition routine keeps its promise
  on the matrix it is given, \<open>fit_line_segment\<close> returns
  \<^item> an anchor equal to the arithmetic mean of the points, coordinate by coordinate, which
    is also the point with the least sum of squared distances to the points;
  \<^item> a direction of unit length that is a dominant right singular vector of the centred
    matrix: no unit vector has a greater sum of squared projections of the centred
    points (the sign is left open: the condition does not distinguish \<open>d\<close> from \<open>-d\<close>);
  \<^item> the best-fit line in the least-squares orthogonal-distance sense: for every anchor
    \<open>a\<close> and every unit direction \<open>v\<close>, the sum of the squared orthogonal distances of
    the points to the line through \<open>a\<close> along \<open>v\<close> is at least the sum for the fitted line,
    the orthogonal distance being the norm of the cross product with the unit direction.
\<close>

theorem C5_fitter_centroid_and_dominant_direction:
  assumes "pts \<noteq> []"
    and "fit_line_segment svd pts = Inr (mean, direction)"
    and "svd_contract svd (map (\<lambda>p. vsub p mean) pts)"
  shows "mean = (sum_list (map fst pts) / real (length pts),
                 sum_list (map (fst \<circ> snd) pts) / real (length pts),
                 sum_list (map (snd \<circ> snd) pts) / real (length pts))
       \<and> (\<forall>a. (\<Sum>p\<leftarrow>pts. (norm3 (vsub p mean))\<^sup>2) \<le> (\<Sum>p\<leftarrow>pts. (norm3 (vsub p a))\<^sup>2))
       \<and> norm3 direction = 1
       \<and> (\<forall>v. norm3 v = 1 \<longrightarrow>
              (\<Sum>p\<leftarrow>pts. (dot (vsub p mean) v)\<^sup>2) \<le> (\<Sum>p\<leftarrow>pts. (dot (vsub p mean) direction)\<^sup>2))
       \<and> (\<forall>a v. norm3 v = 1 \<longrightarrow>
              (\<Sum>p\<leftarrow>pts. (norm3 (cross (vsub p mean) direction))\<^sup>2)
              \<le> (\<Sum>p\<leftarrow>pts. (norm3 (cross (vsub p a) v))\<^sup>2))"
proof -
  have m: "mean = np_mean pts"
    using assms(2) by (auto simp: fit_line_segment_def Let_def split: option.splits)
  have "svd (map (\<lambda>p. vsub p mean) pts) = Some direction"
    using assms(2) by (auto simp: fit_line_segment_def Let_def split: option.splits)
  then have frs: "first_right_singular (map (\<lambda>p. vsub p mean) pts) direction"
    using assms(3) by (simp add: svd_contract_def)
  have c1: "mean = (sum_list (map fst pts) / real (length pts),
                 sum_list (map (fst \<circ> snd) pts) / real (length pts),
                 sum_list (map (snd \<circ> snd) pts) / real (length pts))"
    unfolding m by (simp add: np_mean_def Let_def)
  have c2: "(\<Sum>p\<leftarrow>pts. (norm3 (vsub p mean))\<^sup>2) \<le> (\<Sum>p\<leftarrow>pts. (norm3 (vsub p a))\<^sup>2)" for a
  proof -
    have "0 \<le> real (length pts) * sumsq (vsub mean a)"
      by (simp add: sumsq_nonneg)
    then show ?thesis
      unfolding norm3_sq m using sum_sumsq_shift [OF assms(1), of a] by simp
  qed
  have u: "norm3 direction = 1"
    using frs by (simp add: first_right_singular_def)
  have dom: "(\<Sum>p\<leftarrow>pts. (dot (vsub p mean) v)\<^sup>2) \<le> (\<Sum>p\<leftarrow>pts. (dot (vsub p mean) direction)\<^sup>2)"
    if "norm3 v = 1" for v
  proof -
    from frs that
    have "(\<Sum>q\<leftarrow>map (\<lambda>p. vsub p mean) pts. (dot q v)\<^sup>2)
          \<le> (\<Sum>q\<leftarrow>map (\<lambda>p. vsub p mean) pts. (dot q direction)\<^sup>2)"
      unfolding first_right_singular_def by blast
    then show ?thesis by (simp add: comp_def)
  qed
  have ls: "(\<Sum>p\<leftarrow>pts. (norm3 (cross (vsub p mean) direction))\<^sup>2)
            \<le> (\<Sum>p\<leftarrow>pts. (norm3 (cross (vsub p a) v))\<^sup>2)"
    if v: "norm3 v = 1" for a v
  proof -
    let ?qs = "map (\<lambda>p. vsub p mean) pts"
    have "(\<Sum>p\<leftarrow>pts. sumsq (cross (vsub p mean) direction))
          = (\<Sum>q\<leftarrow>?qs. sumsq q) - (\<Sum>q\<leftarrow>?qs. (dot q direction)\<^sup>2)"
      using sum_cross_unit [OF u, of ?qs] by (simp add: comp_def)
    also have "\<dots> \<le> (\<Sum>q\<leftarrow>?qs. sumsq q) - (\<Sum>q\<leftarrow>?qs. (dot q v)\<^sup>2)"
      using dom [OF v] by (simp add: comp_def)
    also have "\<dots> = (\<Sum>p\<leftarrow>pts. sumsq (cross (vsub p mean) v))"
      using sum_cross_unit [OF v, of ?qs] by (simp add: comp_def)
    also have "\<dots> \<le> (\<Sum>p\<leftarrow>pts. sumsq (cross (vsub p a) v))"
    proof -
      have "0 \<le> real (length pts) * sumsq (cross (vsub mean a) v)"
        by (simp add: sumsq_nonneg)
      then show ?thesis
        unfolding m using sum_cross_shift [OF assms(1), of a v] by simp
    qed
    finally show ?thesis unfolding norm3_sq .
  qed
  show ?thesis using c1 c2 u dom ls by blast
qed

text \<open>
  On \<open>cloud_kite\<close> the centroid is \<open>(1, 1/4, 0)\<close> and the X axis is a dominant direction of the
  centred points; the fitted line is compared with the Y axis through the origin.
\<close>

theorem C5_fitter_centroid_and_dominant_direction_witness:
  "cloud_kite \<noteq> []
   \<and> fit_line_segment svd_x_axis cloud_kite = Inr ((1, 1/4, 0), (1, 0, 0))
   \<and> (1, 1/4, 0) = (sum_list (map fst cloud_kite) / real (length cloud_kite),
                    sum_list (map (fst \<circ> snd) cloud_kite) / real (length cloud_kite),
                    sum_list (map (snd \<circ> snd) cloud_kite) / real (length cloud_kite))
   \<and> (\<Sum>p\<leftarrow>cloud_kite. (norm3 (vsub p (1, 1/4, 0)))\<^sup>2)
       \<le> (\<Sum>p\<leftarrow>cloud_kite. (norm3 (vsub p (0, 0, 0)))\<^sup>2)
   \<and> norm3 (1, 0, 0) = 1
   \<and> norm3 (0, 1, 0) = 1
   \<and> (\<Sum>p\<leftarrow>cloud_kite. (dot (vsub p (1, 1/4, 0)) (0, 1, 0))\<^sup>2)
       \<le> (\<Sum>p\<leftarrow>cloud_kite. (dot (vsub p (1, 1/4, 0)) (1, 0, 0))\<^sup>2)
   \<and> (\<Sum>p\<leftarrow>cloud_kite. (norm3 (cross (vsub p (1, 1/4, 0)) (1, 0, 0)))\<^sup>2)
       \<le> (\<Sum>p\<leftarrow>cloud_kite. (norm3 (cross (vsub p (0, 0, 0)) (0, 1, 0)))\<^sup>2)"
proof -
  have ne: "cloud_kite \<noteq> []" by (simp add: cloud_kite_def)
  have v: "norm3 (0, 1, 0) = 1" by (simp add: norm3_axis)
  note T = C5_fitter_centroid_and_dominant_direction [OF ne fit_kite svd_contract_kite]
  from T have a: "(1, 1/4, 0) = (sum_list (map fst cloud_kite) / real (length cloud_kite),
                    sum_list (map (fst \<circ> snd) cloud_kite) / real (length cloud_kite),
                    sum_list (map (snd \<circ> snd) cloud_kite) / real (length cloud_kite))"
    by blast
  from T have b: "(\<Sum>p\<leftarrow>cloud_kite. (norm3 (vsub p (1, 1/4, 0)))\<^sup>2)
       \<le> (\<Sum>p\<leftarrow>cloud_kite. (norm3 (vsub p (0, 0, 0)))\<^sup>2)"
    by blast
  from T have c: "norm3 (1, 0, 0) = 1" by blast
  from T v have d: "(\<Sum>p\<leftarrow>cloud_kite. (dot (vsub p (1, 1/4, 0)) (0, 1, 0))\<^sup>2)
       \<le> (\<Sum>p\<leftarrow>cloud_kite. (dot (vsub p (1, 1/4, 0)) (1, 0, 0))\<^sup>2)"
    by blast
  from T v have e: "(\<Sum>p\<leftarrow>cloud_kite. (norm3 (cross (vsub p (1, 1/4, 0)) (1, 0, 0)))\<^sup>2)
       \<le> (\<Sum>p\<leftarrow>cloud_kite. (norm3 (cross (vsub p (0, 0, 0)) (0, 1, 0)))\<^sup>2)"
    by blast
  show ?thesis using ne fit_kite a b c v d e by (intro conjI)
qed

section \<open>Strict thresholds (C6)\<close>

text \<open>
  C6: both threshold comparisons are strict. A pool position belongs to the local
  neighbourhood exactly when the distance of its point to the seed is strictly below
  \<open>neighborhood_radius\<close>; the seed itself is in it, at distance 0, for a positive radius;
  a point at exactly the radius is left out. A local position is an inlier exactly when
  the norm of the cross product of its offset from the anchor with the direction is
  strictly below the threshold; a point at exactly the threshold is left out, and every
  rejected local point has that distance at least the threshold. For a direction of unit
  length this norm is the length of the component of the offset orthogonal to the
  direction, the orthogonal distance to the line.
\<close>

theorem C6_strict_thresholds:
  "(k \<in> set (local_indices pts idx r)
      \<longleftrightarrow> k < length pts \<and> norm3 (vsub (pts ! k) (pts ! idx)) < r)
   \<and> (idx < length pts \<and> 0 < r \<longrightarrow> idx \<in> set (local_indices pts idx r))
   \<and> (norm3 (vsub (pts ! k) (pts ! idx)) = r \<longrightarrow> k \<notin> set (local_indices pts idx r))
   \<and> (j \<in> set (inliers_idx lp mean dir th)
      \<longleftrightarrow> j < length lp \<and> norm3 (cross (vsub (lp ! j) mean) dir) < th)
   \<and> (norm3 (cross (vsub (lp ! j) mean) dir) = th \<longrightarrow> j \<notin> set (inliers_idx lp mean dir th))
   \<and> (j < length lp \<and> j \<notin> set (inliers_idx lp mean dir th)
      \<longrightarrow> th \<le> norm3 (cross (vsub (lp ! j) mean) dir))
   \<and> (norm3 dir = 1 \<longrightarrow>
        norm3 (cross (vsub (lp ! j) mean) dir)
        = norm3 (vsub (vsub (lp ! j) mean) (smul dir (dot (vsub (lp ! j) mean) dir))))"
  by (auto simp: set_local_indices set_inliers_idx vsub_self norm3_zero norm3_cross_unit)

text \<open>
  At the cloud \<open>cloud_bent\<close> with seed 0 and radius 1: the seed is local, the point at
  distance exactly 1 is not. With the line through \<open>(1, 1/4, 0)\<close> along the X axis and
  threshold \<open>3/4\<close>, the point \<open>(1, 1, 0)\<close> lies at distance exactly \<open>3/4\<close> and is
  rejected.
\<close>

theorem C6_strict_thresholds_witness:
  "0 < length cloud_bent \<and> (0::real) < 1
   \<and> 0 \<in> set (local_indices cloud_bent 0 1)
   \<and> norm3 (vsub (cloud_bent ! 1) (cloud_bent ! 0)) = 1
   \<and> 1 \<notin> set (local_indices cloud_bent 0 1)
   \<and> norm3 (1, 0, 0) = 1
   \<and> 3 < length cloud_bent
   \<and> norm3 (cross (vsub (cloud_bent ! 3) (1, 1/4, 0)) (1, 0, 0)) = 3/4
   \<and> 3 \<notin> set (inliers_idx cloud_bent (1, 1/4, 0) (1, 0, 0) (3/4))
   \<and> norm3 (vsub (vsub (cloud_bent ! 3) (1, 1/4, 0))
        (smul (1, 0, 0) (dot (vsub (cloud_bent ! 3) (1, 1/4, 0)) (1, 0, 0)))) = 3/4"
  using C6_strict_thresholds [of 1 cloud_bent 0 1 3 cloud_bent "(1, 1/4, 0)" "(1, 0, 0)" "3/4"]
  by (simp add: cloud_bent_def norm3_def real_sqrt_divide)

section \<open>The loop guard and the iteration cap (C7)\<close>

text \<open>
  C7, as stated, takes \<open>max_iterations\<close> to be a positive integer the caller supplies,
  within which every run ends. \<open>run_local_ransac\<close> has no such parameter: the cap is the
  constant 5000 assigned inside the function, and below it a run takes as many steps as
  the pool allows. On four isolated points with \<open>min_samples = 2\<close> the loop body runs
  twice, which a caller's cap of 1 would not have allowed.
\<close>

theorem C7_cap_is_not_a_parameter_counterexample:
  "count_iterations rnd_zero svd_x_axis 1 2 (1/2) (init_state cloud_sparse) = 2
   \<and> max_iterations = 5000"
  by (simp add: count_sparse max_iterations_def)

text \<open>
  C7, amended: \<open>max_iterations\<close> is the constant 5000 fixed inside the function. The loop
  continues exactly while \<open>len(points) > min_samples\<close> and \<open>iter_count < 5000\<close>; from the
  initial state the loop body is entered at most 5000 times, for every input and every
  parameter choice; a call that returns returns the list of segments of the first state
  in which the guard fails, and \<open>iter_count\<close> is then the number of steps taken. For
  \<open>min_samples \<ge> 1\<close> and a decomposition routine that does not raise, the call always
  returns.
\<close>

theorem C7_loop_guard_and_cap:
  "ransac_loop rnd svd r ms th s
     = (if int (length (points s)) > ms \<and> iter_count s < 5000
        then case iteration rnd svd r ms th s of
               Inl e \<Rightarrow> Inl e
             | Inr s' \<Rightarrow> ransac_loop rnd svd r ms th s'
        else Inr s)
   \<and> count_iterations rnd svd r ms th (init_state data) \<le> 5000
   \<and> (run_local_ransac rnd svd data r ms th = Inr ls \<longrightarrow>
        (\<exists>s'. ransac_loop rnd svd r ms th (init_state data) = Inr s'
            \<and> ls = lines s'
            \<and> \<not> (int (length (points s')) > ms \<and> iter_count s' < 5000)
            \<and> iter_count s' = count_iterations rnd svd r ms th (init_state data)))
   \<and> (1 \<le> ms \<and> (\<forall>m. svd m \<noteq> None) \<longrightarrow>
        (\<exists>ls'. run_local_ransac rnd svd data r ms th = Inr ls'))"
proof -
  have a: "ransac_loop rnd svd r ms th s
     = (if int (length (points s)) > ms \<and> iter_count s < 5000
        then case iteration rnd svd r ms th s of
               Inl e \<Rightarrow> Inl e
             | Inr s' \<Rightarrow> ransac_loop rnd svd r ms th s'
        else Inr s)"
    by (simp add: ransac_loop.simps [of rnd svd r ms th s] guard_def max_iterations_def)
  have b: "count_iterations rnd svd r ms th (init_state data) \<le> 5000"
    using count_iterations_cap [of rnd svd r ms th "init_state data"]
    by (simp add: max_iterations_def)
  have c: "\<exists>s'. ransac_loop rnd svd r ms th (init_state data) = Inr s'
            \<and> ls = lines s'
            \<and> \<not> (int (length (points s')) > ms \<and> iter_count s' < 5000)
            \<and> iter_count s' = count_iterations rnd svd r ms th (init_state data)"
    if "run_local_ransac rnd svd data r ms th = Inr ls"
  proof -
    from that obtain s' where
      l: "ransac_loop rnd svd r ms th (init_state data) = Inr s'" and ls: "ls = lines s'"
      by (auto simp: run_local_ransac_Inr)
    from ransac_loop_facts [OF l] have "\<not> guard ms s'"
      and "iter_count s' = count_iterations rnd svd r ms th (init_state data)"
      by (simp_all add: init_state_def)
    then show ?thesis using l ls by (auto simp: guard_def max_iterations_def)
  qed
  have d: "\<exists>ls'. run_local_ransac rnd svd data r ms th = Inr ls'"
    if "1 \<le> ms \<and> (\<forall>m. svd m \<noteq> None)"
    using ransac_loop_total [of ms svd rnd r th "init_state data"] that
    by (auto simp: run_local_ransac_Inr)
  show ?thesis using a b c d by blast
qed


text \<open>
  The run on \<open>cloud_bent\<close> returns one segment after one step, with two points left
  (not more than \<open>min_samples = 3\<close>).
\<close>

theorem C7_loop_guard_and_cap_witness:
  "run_local_ransac rnd_zero svd_x_axis cloud_bent 10 3 (1/2) = Inr [((0, 1/4, 0), (2, 1/4, 0))]
   \<and> (1::int) \<le> 3
   \<and> (\<forall>m. svd_x_axis m \<noteq> None)
   \<and> count_iterations rnd_zero svd_x_axis 10 3 (1/2) (init_state cloud_bent) \<le> 5000
   \<and> (\<exists>s'. ransac_loop rnd_zero svd_x_axis 10 3 (1/2) (init_state cloud_bent) = Inr s'
          \<and> [((0, 1/4, 0), (2, 1/4, 0))] = lines s'
          \<and> \<not> (int (length (points s')) > 3 \<and> iter_count s' < 5000)
          \<and> iter_count s' = count_iterations rnd_zero svd_x_axis 10 3 (1/2) (init_state cloud_bent))
   \<and> (\<exists>ls'. run_local_ransac rnd_zero svd_x_axis cloud_bent 10 3 (1/2) = Inr ls')"
proof -
  note T = C7_loop_guard_and_cap [of rnd_zero svd_x_axis 10 3 "1/2" "init_state cloud_bent"
             cloud_bent "[((0, 1/4, 0), (2, 1/4, 0))]"]
  have h1: "run_local_ransac rnd_zero svd_x_axis cloud_bent 10 3 (1/2)
            = Inr [((0, 1/4, 0), (2, 1/4, 0))]"
    by (rule run_local_ransac_bent)
  have h2: "(1::int) \<le> 3" by simp
  have h3: "\<forall>m. svd_x_axis m \<noteq> None" by (simp add: svd_x_axis_def)
  from T have b: "count_iterations rnd_zero svd_x_axis 10 3 (1/2) (init_state cloud_bent) \<le> 5000"
    by blast
  from T h1 have c: "\<exists>s'. ransac_loop rnd_zero svd_x_axis 10 3 (1/2) (init_state cloud_bent) = Inr s'
          \<and> [((0, 1/4, 0), (2, 1/4, 0))] = lines s'
          \<and> \<not> (int (length (points s')) > 3 \<and> iter_count s' < 5000)
          \<and> iter_count s' = count_iterations rnd_zero svd_x_axis 10 3 (1/2) (init_state cloud_bent)"
    by blast
  from T h2 h3 have d: "\<exists>ls'. run_local_ransac rnd_zero svd_x_axis cloud_bent 10 3 (1/2) = Inr ls'"
    by blast
  show ?thesis using h1 h2 h3 b c d by blast
qed

section \<open>Isolated points yield no segment (C8)\<close>

text \<open>
  C8, as stated: for any input in which no two points lie within \<open>neighborhood_radius\<close> of
  each other, seeds are removed one at a time until the pool drains to at most
  \<open>min_samples\<close> points. The loop also stops at the cap of 5000 iterations: on the 5003
  points of \<open>cloud_far\<close>, one unit apart, with radius \<open>1/2\<close> and \<open>min_samples = 2\<close>, the run
  ends with 3 points in the pool, more than \<open>min_samples\<close>.
\<close>

theorem C8_large_isolated_cloud_is_not_drained_counterexample:
  "isolated (1/2) cloud_far
   \<and> map_sum id (length \<circ> points)
        (ransac_loop rnd_zero svd_x_axis (1/2) 2 (1/20) (init_state cloud_far)) = Inr 3"
proof -
  have iso: "isolated (1/2) (points (init_state cloud_far))"
    by (simp add: init_state_def isolated_cloud_far)
  from ransac_loop_isolated [OF iso, of 2 rnd_zero svd_x_axis "1/20"] obtain s' where
    "ransac_loop rnd_zero svd_x_axis (1/2) 2 (1/20) (init_state cloud_far) = Inr s'"
    "length (points s')
       = length (points (init_state cloud_far))
         - min (nat (int (length (points (init_state cloud_far))) - 2))
               (max_iterations - iter_count (init_state cloud_far))"
    by auto
  then show ?thesis
    using isolated_cloud_far by (simp add: init_state_def cloud_far_def max_iterations_def)
qed

text \<open>
  C8, amended: for any input in which no two points lie within \<open>neighborhood_radius\<close> of
  each other, and \<open>min_samples \<ge> 2\<close>, the extractor emits zero segments: every
  neighbourhood holds at most the seed, below \<open>min_samples\<close>, so seeds are removed one at a
  time until the pool has at most \<open>min_samples\<close> points or 5000 iterations have run. The
  run takes \<open>min (n - min_samples) 5000\<close> steps (none when \<open>n \<le> min_samples\<close>) and leaves
  that many points fewer; the pool drains to at most \<open>min_samples\<close> points whenever the
  input has at most \<open>min_samples + 5000\<close> points.
\<close>

theorem C8_isolated_points_yield_no_segment:
  assumes "isolated r data" and "2 \<le> ms"
  shows "run_local_ransac rnd svd data r ms th = Inr []
       \<and> (\<forall>idx < length data. set (local_indices data idx r) \<subseteq> {idx})
       \<and> (\<exists>s'. ransac_loop rnd svd r ms th (init_state data) = Inr s'
              \<and> lines s' = []
              \<and> length (points s') = length data - min (nat (int (length data) - ms)) 5000
              \<and> iter_count s' = min (nat (int (length data) - ms)) 5000
              \<and> (int (length data) \<le> ms + 5000 \<longrightarrow> int (length (points s')) \<le> ms))"
proof -
  have iso: "isolated r (points (init_state data))"
    using assms(1) by (simp add: init_state_def)
  from ransac_loop_isolated [OF iso assms(2), of rnd svd th] obtain s' where
    l: "ransac_loop rnd svd r ms th (init_state data) = Inr s'" and
    a: "lines s' = []" and
    c: "length (points s') = length data - min (nat (int (length data) - ms)) 5000" and
    d: "iter_count s' = min (nat (int (length data) - ms)) 5000"
    by (auto simp: init_state_def max_iterations_def)
  have e: "int (length (points s')) \<le> ms" if "int (length data) \<le> ms + 5000"
    using c that assms(2) by (auto simp: min_def)
  have "run_local_ransac rnd svd data r ms th = Inr []"
    using l a by (simp add: run_local_ransac_def)
  moreover have "\<forall>idx < length data. set (local_indices data idx r) \<subseteq> {idx}"
    using isolated_local(1) [OF assms(1)] by blast
  ultimately show ?thesis using l a c d e by blast
qed

text \<open>
  On the four points of \<open>cloud_sparse\<close>, ten units apart, with radius 1 and
  \<open>min_samples = 2\<close>: no segment, two steps, two points left.
\<close>

theorem C8_isolated_points_yield_no_segment_witness:
  "isolated 1 cloud_sparse
   \<and> (2::int) \<le> 2
   \<and> run_local_ransac rnd_zero svd_x_axis cloud_sparse 1 2 (1/2) = Inr []
   \<and> set (local_indices cloud_sparse 0 1) \<subseteq> {0}
   \<and> (\<exists>s'. ransac_loop rnd_zero svd_x_axis 1 2 (1/2) (init_state cloud_sparse) = Inr s'
          \<and> lines s' = []
          \<and> length (points s') = 2
          \<and> iter_count s' = 2)"
proof -
  have h2: "(2::int) \<le> 2" by simp
  note T = C8_isolated_points_yield_no_segment
             [OF isolated_cloud_sparse h2, of rnd_zero svd_x_axis "1/2"]
  have n: "length cloud_sparse = 4" by (simp add: cloud_sparse_def)
  from T have a: "run_local_ransac rnd_zero svd_x_axis cloud_sparse 1 2 (1/2) = Inr []"
    by blast
  from T n have b: "set (local_indices cloud_sparse 0 1) \<subseteq> {0}"
    by simp
  from T obtain s' where
    "ransac_loop rnd_zero svd_x_axis 1 2 (1/2) (init_state cloud_sparse) = Inr s'"
    "lines s' = []"
    "length (points s') = length cloud_sparse - min (nat (int (length cloud_sparse) - 2)) 5000"
    "iter_count s' = min (nat (int (length cloud_sparse) - 2)) 5000"
    by blast
  then have c: "\<exists>s'. ransac_loop rnd_zero svd_x_axis 1 2 (1/2) (init_state cloud_sparse) = Inr s'
          \<and> lines s' = [] \<and> length (points s') = 2 \<and> iter_count s' = 2"
    unfolding n by (intro exI [of _ s']) simp
  show ?thesis using isolated_cloud_sparse h2 a b c by blast
qed

section \<open>The input is not mutated (C9)\<close>

text \<open>
  C9: \<open>run_local_ransac\<close> never mutates its input: all pool deletions are performed on an
  internal copy of the caller's point array, so the input collection is identical before and
  after any call, for every input and parameter choice. In the store: for a call on the
  array at an address \<open>data\<close> in use, whether it returns the segments or raises, the array at
  \<open>data\<close> and every other array in use before the call have the same rows after the call, and
  the outcome is the one \<open>run_local_ransac\<close> computes from the rows at \<open>data\<close>.
\<close>

theorem C9_input_array_is_never_written:
  assumes "data < next_addr st"
    and "run_local_ransac_store rnd svd st data r ms th = (st', res)"
  shows "arrays st' data = arrays st data
       \<and> (\<forall>b < next_addr st. arrays st' b = arrays st b)
       \<and> res = run_local_ransac rnd svd (arrays st data) r ms th"
proof -
  obtain p st1 where al: "alloc st (arrays st data) = (p, st1)"
    by (cases "alloc st (arrays st data)")
  obtain res1 where
    run: "ransac_loop_store rnd svd r ms th st1
            \<lparr>points_ref = p, lines_var = [], iter_count_var = 0\<rparr> = (st', res1)"
    and res: "res = map_sum id lines_var res1"
    using assms(2) al by (auto simp: run_local_ransac_store_def split: prod.splits)
  note fr = ransac_loop_store_frame [OF run]
  note af = alloc_frame [OF al]
  have init: "read_state st1 \<lparr>points_ref = p, lines_var = [], iter_count_var = 0\<rparr>
              = init_state (arrays st data)"
    using af(3) by (simp add: read_state_def init_state_def)
  have keep: "\<forall>b < next_addr st. arrays st' b = arrays st b"
    using fr af(2,4) by auto
  have "map_sum id lines (map_sum (\<lambda>e. e) (read_state st') res1) = map_sum id lines_var res1"
    by (cases res1) (simp_all add: read_state_def)
  then have "res = run_local_ransac rnd svd (arrays st data) r ms th"
    using fr init res by (simp add: run_local_ransac_def)
  with keep assms(1) show ?thesis by blast
qed

text \<open>
  On a store holding \<open>cloud_bent\<close> at address 0: after the call the five rows are still
  there, and the call returns the one segment of that cloud.
\<close>

theorem C9_input_array_is_never_written_witness:
  "(0::nat) < next_addr heap_one
   \<and> arrays (fst (run_local_ransac_store rnd_zero svd_x_axis heap_one 0 10 3 (1/2))) 0 = cloud_bent
   \<and> snd (run_local_ransac_store rnd_zero svd_x_axis heap_one 0 10 3 (1/2))
     = Inr [((0, 1/4, 0), (2, 1/4, 0))]"
proof -
  have h: "(0::nat) < next_addr heap_one" by (simp add: heap_one_def)
  have a: "arrays heap_one 0 = cloud_bent" by (simp add: heap_one_def)
  note T = C9_input_array_is_never_written
             [OF h surjective_pairing, of rnd_zero svd_x_axis 10 3 "1/2"]
  from T have "arrays (fst (run_local_ransac_store rnd_zero svd_x_axis heap_one 0 10 3 (1/2))) 0
               = arrays heap_one 0" by blast
  moreover from T have "snd (run_local_ransac_store rnd_zero svd_x_axis heap_one 0 10 3 (1/2))
               = run_local_ransac rnd_zero svd_x_axis (arrays heap_one 0) 10 3 (1/2)" by blast
  ultimately show ?thesis using h a run_local_ransac_bent by simp
qed

section \<open>Every iteration shrinks the pool (C10)\<close>




end
